theory Spec2Isabelle
  imports Main
begin

section \<open>Data model\<close>

text \<open>
  The API types of \<^verbatim>\<open>api/v1alpha1/appinstance_types.go\<close> and the parts of the
  Kubernetes objects that \<^verbatim>\<open>internal/controller/appinstance_controller.go\<close>
  reads or writes. Go's \<^verbatim>\<open>int\<close> is modelled by \<open>int\<close>: the only arithmetic of
  the controller is \<^verbatim>\<open>i++\<close> under the guard \<^verbatim>\<open>i < desiredSize\<close>,
  \<^verbatim>\<open>currentSize - 1\<close> with \<^verbatim>\<open>currentSize = len(...)\<close>, and \<^verbatim>\<open>i--\<close>
  after a successful access of index \<^verbatim>\<open>i\<close>, none of which can leave the range of a
  machine integer.
\<close>

record ObjectMeta =
  Name :: string
  Namespace :: string

record AppInstanceSpec =
  Size :: int

record AppInstanceStatus =
  Nodes :: "string list"

record AppInstance = ObjectMeta +
  Spec :: AppInstanceSpec
  Status :: AppInstanceStatus

record OwnerReference =
  RefKind :: string
  RefName :: string
  Controller :: bool
  BlockOwnerDeletion :: bool

record Container =
  ContainerName :: string
  Image :: string
  Command :: "string list"

record Pod = ObjectMeta +
  Labels :: "(string \<times> string) list"
  OwnerReferences :: "OwnerReference list"
  Containers :: "Container list"

record Request =
  ReqNamespace :: string
  ReqName :: string

text \<open>
  Errors returned by the API client, and the two ways a call of the controller can fail:
  with an error value, or with the runtime panic of an out-of-range slice index.
\<close>

datatype api_error = NotFound | AlreadyExists | Unavailable

datatype failure = Err api_error | PanicIndexOutOfRange

definition IsNotFound :: "api_error \<Rightarrow> bool" where
  "IsNotFound e = (e = NotFound)"

section \<open>The object store\<close>

text \<open>
  The controller talks to the cluster through the embedded \<^verbatim>\<open>client.Client\<close>, which is
  not part of the repository. The store is modelled as a state: the stored instances by
  namespace and name, the stored pods in listing order, a script \<open>faults\<close> that gives the
  outcome the environment imposes on each coming call (\<open>None\<close>, or an exhausted script, lets
  the call through), and the \<open>trace\<close> of the calls made so far with their outcomes.
\<close>

datatype call =
    GetCall "string \<times> string"
  | ListCall string "(string \<times> string) list"
  | CreateCall Pod
  | DeleteCall Pod
  | StatusUpdateCall AppInstance

type_synonym event = "call \<times> api_error option"

record cluster =
  instances :: "string \<times> string \<Rightarrow> AppInstance option"
  pods :: "Pod list"
  faults :: "api_error option list"
  trace :: "event list"

definition key_of :: "'a ObjectMeta_scheme \<Rightarrow> string \<times> string" where
  "key_of obj = (Namespace obj, Name obj)"

definition next_fault :: "cluster \<Rightarrow> api_error option \<times> cluster" where
  "next_fault c = (case faults c of [] \<Rightarrow> (None, c) | f # fs \<Rightarrow> (f, c\<lparr>faults := fs\<rparr>))"

definition record_call :: "call \<Rightarrow> api_error option \<Rightarrow> cluster \<Rightarrow> cluster" where
  "record_call k out c = c\<lparr>trace := trace c @ [(k, out)]\<rparr>"

definition matches :: "string \<Rightarrow> (string \<times> string) list \<Rightarrow> Pod \<Rightarrow> bool" where
  "matches ns sel p =
     (Namespace p = ns \<and> list_all (\<lambda>(k, v). map_of (Labels p) k = Some v) sel)"

text \<open>
  Modelled from the spec: the five store primitives \<open>client_Get\<close>, \<open>client_List\<close>,
  \<open>client_Create\<close>, \<open>client_Delete\<close> and \<open>client_StatusUpdate\<close> below, which stand
  for the methods of \<^verbatim>\<open>client.Client\<close> the controller calls. They follow section 6
  of the specification (\<^verbatim>\<open>get(key) \<rightarrow> Instance | NotFound | Error\<close>, \<^verbatim>\<open>list\<close>,
  \<^verbatim>\<open>create\<close>, \<^verbatim>\<open>delete\<close>, \<^verbatim>\<open>updateStatus\<close>, each \<^verbatim>\<open>Ack | Error\<close>) and the
  conventions of the API server: an object is identified by namespace and name, a list
  returns the pods of the namespace that carry every label of the selector, creating an
  existing key is refused, deleting or updating a missing key is refused, and a status
  update replaces the status of the stored object only. Every call first takes the next
  entry of the fault script, so that any call can fail for a reason outside the store.
\<close>

definition client_Get :: "cluster \<Rightarrow> string \<times> string \<Rightarrow> (api_error + AppInstance) \<times> cluster" where
  "client_Get c k =
     (case next_fault c of
        (Some e, c1) \<Rightarrow> (Inl e, record_call (GetCall k) (Some e) c1)
      | (None, c1) \<Rightarrow>
          (case instances c1 k of
             None \<Rightarrow> (Inl NotFound, record_call (GetCall k) (Some NotFound) c1)
           | Some a \<Rightarrow> (Inr a, record_call (GetCall k) None c1)))"

definition client_List ::
  "cluster \<Rightarrow> string \<Rightarrow> (string \<times> string) list \<Rightarrow> (api_error + Pod list) \<times> cluster" where
  "client_List c ns sel =
     (case next_fault c of
        (Some e, c1) \<Rightarrow> (Inl e, record_call (ListCall ns sel) (Some e) c1)
      | (None, c1) \<Rightarrow>
          (Inr (filter (matches ns sel) (pods c1)), record_call (ListCall ns sel) None c1))"

definition client_Create :: "cluster \<Rightarrow> Pod \<Rightarrow> (api_error + unit) \<times> cluster" where
  "client_Create c p =
     (case next_fault c of
        (Some e, c1) \<Rightarrow> (Inl e, record_call (CreateCall p) (Some e) c1)
      | (None, c1) \<Rightarrow>
          (if key_of p \<in> set (map key_of (pods c1))
           then (Inl AlreadyExists, record_call (CreateCall p) (Some AlreadyExists) c1)
           else (Inr (), record_call (CreateCall p) None (c1\<lparr>pods := pods c1 @ [p]\<rparr>))))"

definition client_Delete :: "cluster \<Rightarrow> Pod \<Rightarrow> (api_error + unit) \<times> cluster" where
  "client_Delete c p =
     (case next_fault c of
        (Some e, c1) \<Rightarrow> (Inl e, record_call (DeleteCall p) (Some e) c1)
      | (None, c1) \<Rightarrow>
          (if key_of p \<in> set (map key_of (pods c1))
           then (Inr (), record_call (DeleteCall p) None
                   (c1\<lparr>pods := filter (\<lambda>q. key_of q \<noteq> key_of p) (pods c1)\<rparr>))
           else (Inl NotFound, record_call (DeleteCall p) (Some NotFound) c1)))"

definition client_StatusUpdate :: "cluster \<Rightarrow> AppInstance \<Rightarrow> (api_error + unit) \<times> cluster" where
  "client_StatusUpdate c a =
     (case next_fault c of
        (Some e, c1) \<Rightarrow> (Inl e, record_call (StatusUpdateCall a) (Some e) c1)
      | (None, c1) \<Rightarrow>
          (case instances c1 (key_of a) of
             None \<Rightarrow> (Inl NotFound, record_call (StatusUpdateCall a) (Some NotFound) c1)
           | Some stored \<Rightarrow>
               (Inr (), record_call (StatusUpdateCall a) None
                  (c1\<lparr>instances := (instances c1)(key_of a \<mapsto> stored\<lparr>Status := Status a\<rparr>)\<rparr>))))"

section \<open>The controller\<close>

subsection \<open>Formatting of the pod name\<close>

text \<open>
  \<^verbatim>\<open>fmt.Sprintf("%s-pod-%d", app.Name, i)\<close>: the verb \<^verbatim>\<open>%d\<close> prints a decimal numeral
  without leading zeros, preceded by a minus sign for a negative number.
\<close>

definition digit_char :: "nat \<Rightarrow> char" where
  "digit_char d = ''0123456789'' ! d"

fun digits :: "nat \<Rightarrow> string" where
  "digits n = (if n < 10 then [digit_char n] else digits (n div 10) @ [digit_char (n mod 10)])"

declare digits.simps [simp del]

definition format_d :: "int \<Rightarrow> string" where
  "format_d i = (if i < 0 then CHR ''-'' # digits (nat (- i)) else digits (nat i))"

definition podName :: "AppInstance \<Rightarrow> int \<Rightarrow> string" where
  "podName app i = Name app @ ''-pod-'' @ format_d i"

subsection \<open>Reading the state\<close>

definition getAppInstance :: "cluster \<Rightarrow> Request \<Rightarrow> (api_error + AppInstance) \<times> cluster" where
  "getAppInstance c req = client_Get c (ReqNamespace req, ReqName req)"

definition getPodList :: "cluster \<Rightarrow> Request \<Rightarrow> AppInstance \<Rightarrow> (api_error + Pod list) \<times> cluster" where
  "getPodList c req app = client_List c (ReqNamespace req) [(''app'', Name app)]"

subsection \<open>Creating and deleting pods\<close>

definition newPod :: "Request \<Rightarrow> AppInstance \<Rightarrow> int \<Rightarrow> Pod" where
  "newPod req app i =
     \<lparr> Name = podName app i,
       Namespace = ReqNamespace req,
       Labels = [(''app'', Name app)],
       OwnerReferences =
         [\<lparr> RefKind = ''AppInstance'', RefName = Name app,
            Controller = True, BlockOwnerDeletion = True \<rparr>],
       Containers =
         [\<lparr> ContainerName = ''busybox'', Image = ''busybox'',
            Command = [''sleep'', ''3600''] \<rparr>] \<rparr>"

text \<open>
  The loop \<^verbatim>\<open>for i := currentSize; i < desiredSize; i++\<close> of \<^verbatim>\<open>createPods\<close>, with
  the loop variable as the fourth argument.
\<close>

function createPods_loop ::
  "cluster \<Rightarrow> Request \<Rightarrow> AppInstance \<Rightarrow> int \<Rightarrow> int \<Rightarrow> (failure + unit) \<times> cluster" where
  "createPods_loop c req app i desiredSize =
     (if i < desiredSize then
        (case client_Create c (newPod req app i) of
           (Inl e, c') \<Rightarrow> (Inl (Err e), c')
         | (Inr u, c') \<Rightarrow> createPods_loop c' req app (i + 1) desiredSize)
      else (Inr (), c))"
  by pat_completeness auto
termination
  by (relation "measure (\<lambda>(c, req, app, i, desiredSize). nat (desiredSize - i))") auto

declare createPods_loop.simps [simp del]

definition createPods ::
  "cluster \<Rightarrow> Request \<Rightarrow> AppInstance \<Rightarrow> int \<Rightarrow> int \<Rightarrow> (failure + unit) \<times> cluster" where
  "createPods c req app currentSize desiredSize = createPods_loop c req app currentSize desiredSize"

text \<open>
  The loop \<^verbatim>\<open>for i := currentSize - 1; i >= desiredSize; i--\<close> of \<^verbatim>\<open>deletePods\<close>.
  The access \<^verbatim>\<open>podList.Items[i]\<close> panics when \<open>i\<close> is not an index of the slice.
\<close>

function deletePods_loop ::
  "cluster \<Rightarrow> Pod list \<Rightarrow> int \<Rightarrow> int \<Rightarrow> (failure + unit) \<times> cluster" where
  "deletePods_loop c items i desiredSize =
     (if i \<ge> desiredSize then
        (if 0 \<le> i \<and> i < int (length items) then
           (case client_Delete c (items ! nat i) of
              (Inl e, c') \<Rightarrow> (Inl (Err e), c')
            | (Inr u, c') \<Rightarrow> deletePods_loop c' items (i - 1) desiredSize)
         else (Inl PanicIndexOutOfRange, c))
      else (Inr (), c))"
  by pat_completeness auto
termination
  by (relation "measure (\<lambda>(c, items, i, desiredSize). nat (i - desiredSize + 1))") auto

declare deletePods_loop.simps [simp del]

definition deletePods ::
  "cluster \<Rightarrow> Pod list \<Rightarrow> int \<Rightarrow> int \<Rightarrow> (failure + unit) \<times> cluster" where
  "deletePods c items currentSize desiredSize = deletePods_loop c items (currentSize - 1) desiredSize"

definition scalePods ::
  "cluster \<Rightarrow> Request \<Rightarrow> AppInstance \<Rightarrow> Pod list \<Rightarrow> (failure + unit) \<times> cluster" where
  "scalePods c req app items =
     (let desiredSize = Size (Spec app);
          currentSize = int (length items)
      in if currentSize < desiredSize then createPods c req app currentSize desiredSize
         else if currentSize > desiredSize then deletePods c items currentSize desiredSize
         else (Inr (), c))"

subsection \<open>Writing the status\<close>

definition updateStatus :: "cluster \<Rightarrow> AppInstance \<Rightarrow> Pod list \<Rightarrow> (failure + unit) \<times> cluster" where
  "updateStatus c app items =
     (let podNames = foldl (\<lambda>names pod. names @ [Name pod]) [] items;
          app' = app\<lparr>Status := (Status app)\<lparr>Nodes := podNames\<rparr>\<rparr>
      in case client_StatusUpdate c app' of
           (Inl e, c') \<Rightarrow> (Inl (Err e), c')
         | (Inr u, c') \<Rightarrow> (Inr (), c'))"

subsection \<open>One reconciliation pass\<close>

definition Reconcile :: "cluster \<Rightarrow> Request \<Rightarrow> (failure + unit) \<times> cluster" where
  "Reconcile c req =
     (case getAppInstance c req of
        (Inl e, c1) \<Rightarrow> (if IsNotFound e then (Inr (), c1) else (Inl (Err e), c1))
      | (Inr app, c1) \<Rightarrow>
          (case getPodList c1 req app of
             (Inl e, c2) \<Rightarrow> (Inl (Err e), c2)
           | (Inr items, c2) \<Rightarrow>
               (case scalePods c2 req app items of
                  (Inl f, c3) \<Rightarrow> (Inl f, c3)
                | (Inr u, c3) \<Rightarrow> updateStatus c3 app items)))"

section \<open>Observations on a run\<close>

text \<open>
  The calls a run has added to the trace, and what can be read off them: the pods whose
  creation or deletion was attempted, those for which the store acknowledged it, and the
  objects of the status writes that were attempted.
\<close>

definition events_since :: "cluster \<Rightarrow> cluster \<Rightarrow> event list" where
  "events_since c c' = drop (length (trace c)) (trace c')"

definition create_calls :: "event list \<Rightarrow> Pod list" where
  "create_calls evs = concat (map (\<lambda>ev. case fst ev of CreateCall p \<Rightarrow> [p] | _ \<Rightarrow> []) evs)"

definition delete_calls :: "event list \<Rightarrow> Pod list" where
  "delete_calls evs = concat (map (\<lambda>ev. case fst ev of DeleteCall p \<Rightarrow> [p] | _ \<Rightarrow> []) evs)"

definition status_writes :: "event list \<Rightarrow> AppInstance list" where
  "status_writes evs = concat (map (\<lambda>ev. case fst ev of StatusUpdateCall a \<Rightarrow> [a] | _ \<Rightarrow> []) evs)"

definition acked :: "event list \<Rightarrow> event list" where
  "acked evs = filter (\<lambda>ev. snd ev = None) evs"

definition created_pods :: "event list \<Rightarrow> Pod list" where
  "created_pods evs = create_calls (acked evs)"

definition deleted_pods :: "event list \<Rightarrow> Pod list" where
  "deleted_pods evs = delete_calls (acked evs)"

definition observedUnits :: "cluster \<Rightarrow> string \<times> string \<Rightarrow> string list option" where
  "observedUnits c k = map_option (\<lambda>a. Nodes (Status a)) (instances c k)"

text \<open>The instance object with the names of a pod list as its status.\<close>

definition projected :: "AppInstance \<Rightarrow> Pod list \<Rightarrow> AppInstance" where
  "projected app items = app\<lparr>Status := (Status app)\<lparr>Nodes := map Name items\<rparr>\<rparr>"

text \<open>The store keeps at most one pod under a namespace and name.\<close>

definition wf_store :: "cluster \<Rightarrow> bool" where
  "wf_store c = distinct (map key_of (pods c))"

subsection \<open>Concrete stores\<close>

definition demo_app :: "int \<Rightarrow> AppInstance" where
  "demo_app n = \<lparr> Name = ''app'', Namespace = ''default'',
                  Spec = \<lparr> Size = n \<rparr>, Status = \<lparr> Nodes = [] \<rparr> \<rparr>"

definition demo_req :: Request where
  "demo_req = \<lparr> ReqNamespace = ''default'', ReqName = ''app'' \<rparr>"

definition demo_pod :: "string \<Rightarrow> Pod" where
  "demo_pod n = \<lparr> Name = n, Namespace = ''default'', Labels = [(''app'', ''app'')],
                  OwnerReferences = [], Containers = [] \<rparr>"

definition demo_pods :: "Pod list" where
  "demo_pods = [demo_pod ''app-pod-0'', demo_pod ''app-pod-1'', demo_pod ''app-pod-2'']"

definition demo_cluster :: "int \<Rightarrow> Pod list \<Rightarrow> api_error option list \<Rightarrow> cluster" where
  "demo_cluster n ps fs =
     \<lparr> instances = [(''default'', ''app'') \<mapsto> demo_app n], pods = ps, faults = fs, trace = [] \<rparr>"

text \<open>The demo store after the first and after the second read of a pass.\<close>

definition demo_after_get :: "int \<Rightarrow> Pod list \<Rightarrow> api_error option list \<Rightarrow> cluster" where
  "demo_after_get n ps fs = snd (getAppInstance (demo_cluster n ps fs) demo_req)"

definition demo_after_list :: "int \<Rightarrow> Pod list \<Rightarrow> api_error option list \<Rightarrow> cluster" where
  "demo_after_list n ps fs = snd (getPodList (demo_after_get n ps fs) demo_req (demo_app n))"

definition demo_after_scale :: "int \<Rightarrow> Pod list \<Rightarrow> api_error option list \<Rightarrow> cluster" where
  "demo_after_scale n ps fs =
     snd (scalePods (demo_after_list n ps fs) demo_req (demo_app n)
            (filter (matches ''default'' [(''app'', ''app'')]) ps))"

section \<open>Auxiliary facts\<close>

subsection \<open>Trace observations\<close>

lemma events_sinceI: "trace c' = trace c @ evs \<Longrightarrow> events_since c c' = evs"
  by (simp add: events_since_def)

lemma create_calls_simps [simp]:
  "create_calls [] = []"
  "create_calls (xs @ ys) = create_calls xs @ create_calls ys"
  "create_calls ((CreateCall p, out) # evs) = p # create_calls evs"
  "create_calls ((DeleteCall p, out) # evs) = create_calls evs"
  "create_calls ((GetCall k, out) # evs) = create_calls evs"
  "create_calls ((ListCall ns sel, out) # evs) = create_calls evs"
  "create_calls ((StatusUpdateCall a, out) # evs) = create_calls evs"
  by (simp_all add: create_calls_def)

lemma delete_calls_simps [simp]:
  "delete_calls [] = []"
  "delete_calls (xs @ ys) = delete_calls xs @ delete_calls ys"
  "delete_calls ((DeleteCall p, out) # evs) = p # delete_calls evs"
  "delete_calls ((CreateCall p, out) # evs) = delete_calls evs"
  "delete_calls ((GetCall k, out) # evs) = delete_calls evs"
  "delete_calls ((ListCall ns sel, out) # evs) = delete_calls evs"
  "delete_calls ((StatusUpdateCall a, out) # evs) = delete_calls evs"
  by (simp_all add: delete_calls_def)

lemma status_writes_simps [simp]:
  "status_writes [] = []"
  "status_writes (xs @ ys) = status_writes xs @ status_writes ys"
  "status_writes ((StatusUpdateCall a, out) # evs) = a # status_writes evs"
  "status_writes ((CreateCall p, out) # evs) = status_writes evs"
  "status_writes ((DeleteCall p, out) # evs) = status_writes evs"
  "status_writes ((GetCall k, out) # evs) = status_writes evs"
  "status_writes ((ListCall ns sel, out) # evs) = status_writes evs"
  by (simp_all add: status_writes_def)

lemma acked_simps [simp]:
  "acked [] = []"
  "acked (xs @ ys) = acked xs @ acked ys"
  "acked ((k, None) # evs) = (k, None) # acked evs"
  "acked ((k, Some e) # evs) = acked evs"
  by (simp_all add: acked_def)

lemma create_calls_map_create [simp]:
  "create_calls (map (\<lambda>n. (CreateCall (f n), out)) ns) = map f ns"
  by (induction ns) simp_all

lemma delete_calls_map_create [simp]:
  "delete_calls (map (\<lambda>n. (CreateCall (f n), out)) ns) = []"
  by (induction ns) simp_all

lemma status_writes_map_create [simp]:
  "status_writes (map (\<lambda>n. (CreateCall (f n), out)) ns) = []"
  by (induction ns) simp_all

lemma delete_calls_map_delete [simp]:
  "delete_calls (map (\<lambda>n. (DeleteCall (f n), out)) ns) = map f ns"
  by (induction ns) simp_all

lemma create_calls_map_delete [simp]:
  "create_calls (map (\<lambda>n. (DeleteCall (f n), out)) ns) = []"
  by (induction ns) simp_all

lemma status_writes_map_delete [simp]:
  "status_writes (map (\<lambda>n. (DeleteCall (f n), out)) ns) = []"
  by (induction ns) simp_all

lemma acked_map_None [simp]: "acked (map (\<lambda>n. (f n, None)) ns) = map (\<lambda>n. (f n, None)) ns"
  by (simp add: acked_def)

subsection \<open>The store primitives\<close>

lemma next_fault_fields:
  "next_fault c = (f, c1) \<Longrightarrow> instances c1 = instances c \<and> pods c1 = pods c \<and> trace c1 = trace c"
  by (auto simp: next_fault_def split: list.splits)

lemma client_Create_run:
  assumes "client_Create c p = (r, c')"
  shows "instances c' = instances c \<and>
     ((r = Inr () \<and> pods c' = pods c @ [p] \<and> trace c' = trace c @ [(CreateCall p, None)]) \<or>
      (\<exists>e. r = Inl e \<and> pods c' = pods c \<and> trace c' = trace c @ [(CreateCall p, Some e)]))"
proof -
  obtain f c1 where nf: "next_fault c = (f, c1)" by (cases "next_fault c")
  note fields = next_fault_fields [OF nf]
  from assms nf fields show ?thesis
    by (cases f) (auto simp: client_Create_def record_call_def split: if_splits)
qed

lemma client_Delete_run:
  assumes "client_Delete c p = (r, c')"
  shows "instances c' = instances c \<and>
     ((r = Inr () \<and> pods c' = filter (\<lambda>q. key_of q \<noteq> key_of p) (pods c)
         \<and> trace c' = trace c @ [(DeleteCall p, None)]) \<or>
      (\<exists>e. r = Inl e \<and> pods c' = pods c \<and> trace c' = trace c @ [(DeleteCall p, Some e)]))"
proof -
  obtain f c1 where nf: "next_fault c = (f, c1)" by (cases "next_fault c")
  note fields = next_fault_fields [OF nf]
  from assms nf fields show ?thesis
    by (cases f) (auto simp: client_Delete_def record_call_def split: if_splits)
qed

lemma client_StatusUpdate_run:
  assumes "client_StatusUpdate c a = (r, c')"
  shows "pods c' = pods c \<and>
     ((r = Inr () \<and> trace c' = trace c @ [(StatusUpdateCall a, None)] \<and>
        (\<exists>stored. instances c (key_of a) = Some stored \<and>
           instances c' = (instances c)(key_of a \<mapsto> stored\<lparr>Status := Status a\<rparr>))) \<or>
      (\<exists>e. r = Inl e \<and> instances c' = instances c \<and>
         trace c' = trace c @ [(StatusUpdateCall a, Some e)]))"
proof -
  obtain f c1 where nf: "next_fault c = (f, c1)" by (cases "next_fault c")
  note fields = next_fault_fields [OF nf]
  from assms nf fields show ?thesis
    by (cases f) (auto simp: client_StatusUpdate_def record_call_def split: option.splits)
qed

lemma getAppInstance_run:
  assumes "getAppInstance c req = (r, c1)"
  shows "instances c1 = instances c \<and> pods c1 = pods c \<and>
     ((\<exists>app. r = Inr app \<and> instances c (ReqNamespace req, ReqName req) = Some app \<and>
         trace c1 = trace c @ [(GetCall (ReqNamespace req, ReqName req), None)]) \<or>
      (\<exists>e. r = Inl e \<and> trace c1 = trace c @ [(GetCall (ReqNamespace req, ReqName req), Some e)]))"
proof -
  obtain f c0 where nf: "next_fault c = (f, c0)" by (cases "next_fault c")
  note fields = next_fault_fields [OF nf]
  from assms nf fields show ?thesis
    by (cases f) (auto simp: getAppInstance_def client_Get_def record_call_def split: option.splits)
qed

lemma getPodList_run:
  assumes "getPodList c req app = (r, c1)"
  shows "instances c1 = instances c \<and> pods c1 = pods c \<and>
     ((r = Inr (filter (matches (ReqNamespace req) [(''app'', Name app)]) (pods c)) \<and>
         trace c1 = trace c @ [(ListCall (ReqNamespace req) [(''app'', Name app)], None)]) \<or>
      (\<exists>e. r = Inl e \<and>
         trace c1 = trace c @ [(ListCall (ReqNamespace req) [(''app'', Name app)], Some e)]))"
proof -
  obtain f c0 where nf: "next_fault c = (f, c0)" by (cases "next_fault c")
  note fields = next_fault_fields [OF nf]
  from assms nf fields show ?thesis
    by (cases f) (auto simp: getPodList_def client_List_def record_call_def)
qed

subsection \<open>The two loops\<close>

lemma createPods_loop_run:
  "createPods_loop c req app i desiredSize = (r, c') \<Longrightarrow>
     \<exists>j tl. i \<le> j \<and> instances c' = instances c \<and>
       pods c' = pods c @ map (newPod req app) [i..j - 1] \<and>
       trace c' = trace c @ map (\<lambda>n. (CreateCall (newPod req app n), None)) [i..j - 1] @ tl \<and>
       ((r = Inr () \<and> tl = [] \<and> j = max i desiredSize) \<or>
        (\<exists>e. r = Inl (Err e) \<and> j < desiredSize \<and> tl = [(CreateCall (newPod req app j), Some e)]))"
proof (induction c req app i desiredSize arbitrary: r c' rule: createPods_loop.induct)
  case (1 c req app i desiredSize)
  show ?case
  proof (cases "i < desiredSize")
    case False
    with "1.prems" have "r = Inr ()" "c' = c"
      by (simp_all add: createPods_loop.simps [of c req app i desiredSize])
    with False show ?thesis
      by (intro exI [of _ i] exI [of _ "[]"]) simp
  next
    case True
    obtain x c1 where cr: "client_Create c (newPod req app i) = (x, c1)"
      by (cases "client_Create c (newPod req app i)")
    note run = client_Create_run [OF cr]
    show ?thesis
    proof (cases x)
      case (Inl e)
      with "1.prems" True cr have "r = Inl (Err e)" "c' = c1"
        by (simp_all add: createPods_loop.simps [of c req app i desiredSize])
      with run Inl True show ?thesis
        by (intro exI [of _ i] exI [of _ "[(CreateCall (newPod req app i), Some e)]"]) auto
    next
      case (Inr u)
      with "1.prems" True cr have rec: "createPods_loop c1 req app (i + 1) desiredSize = (r, c')"
        by (simp add: createPods_loop.simps [of c req app i desiredSize])
      from "1.IH" [OF True cr [symmetric] Inr rec]
      obtain j tl where j: "i + 1 \<le> j" "instances c' = instances c1"
        "pods c' = pods c1 @ map (newPod req app) [i + 1..j - 1]"
        "trace c' = trace c1 @ map (\<lambda>n. (CreateCall (newPod req app n), None)) [i + 1..j - 1] @ tl"
        "(r = Inr () \<and> tl = [] \<and> j = max (i + 1) desiredSize) \<or>
         (\<exists>e. r = Inl (Err e) \<and> j < desiredSize \<and> tl = [(CreateCall (newPod req app j), Some e)])"
        by blast
      from j(1) have up: "[i..j - 1] = i # [i + 1..j - 1]"
        by (simp add: upto_rec1)
      from run Inr have c1: "instances c1 = instances c" "pods c1 = pods c @ [newPod req app i]"
        "trace c1 = trace c @ [(CreateCall (newPod req app i), None)]"
        by auto
      from j c1 up True show ?thesis
        by (intro exI [of _ j] exI [of _ tl]) (auto simp: max_def)
    qed
  qed
qed

lemma deletePods_loop_run:
  "deletePods_loop c items i desiredSize = (r, c') \<Longrightarrow> i < int (length items) \<Longrightarrow> - 1 \<le> i \<Longrightarrow>
     \<exists>j tl. j \<le> i \<and> - 1 \<le> j \<and> instances c' = instances c \<and>
       pods c' = filter (\<lambda>q. key_of q \<notin> (\<lambda>n. key_of (items ! nat n)) ` {j + 1..i}) (pods c) \<and>
       trace c' = trace c @ map (\<lambda>n. (DeleteCall (items ! nat n), None)) (rev [j + 1..i]) @ tl \<and>
       ((r = Inr () \<and> tl = [] \<and> j = min i (desiredSize - 1)) \<or>
        (\<exists>e. r = Inl (Err e) \<and> desiredSize \<le> j \<and> 0 \<le> j
             \<and> tl = [(DeleteCall (items ! nat j), Some e)]) \<or>
        (r = Inl PanicIndexOutOfRange \<and> desiredSize \<le> j \<and> j < 0 \<and> tl = []))"
proof (induction c items i desiredSize arbitrary: r c' rule: deletePods_loop.induct)
  case (1 c items i desiredSize)
  note lt = \<open>i < int (length items)\<close>
  note lo = \<open>- 1 \<le> i\<close>
  note run0 = \<open>deletePods_loop c items i desiredSize = (r, c')\<close>
  show ?case
  proof (cases "i \<ge> desiredSize")
    case False
    with run0 have "r = Inr ()" "c' = c"
      by (simp_all add: deletePods_loop.simps [of c items i desiredSize])
    with False lo show ?thesis
      by (intro exI [of _ i] exI [of _ "[]"]) simp
  next
    case ge: True
    show ?thesis
    proof (cases "0 \<le> i")
      case False
      with run0 ge have "r = Inl PanicIndexOutOfRange" "c' = c"
        by (simp_all add: deletePods_loop.simps [of c items i desiredSize])
      with False ge lo show ?thesis
        by (intro exI [of _ i] exI [of _ "[]"]) simp
    next
      case nonneg: True
      with lt have inb: "0 \<le> i \<and> i < int (length items)" by simp
      obtain x c1 where dl: "client_Delete c (items ! nat i) = (x, c1)"
        by (cases "client_Delete c (items ! nat i)")
      note run = client_Delete_run [OF dl]
      show ?thesis
      proof (cases x)
        case (Inl e)
        with run0 ge inb dl have "r = Inl (Err e)" "c' = c1"
          by (simp_all add: deletePods_loop.simps [of c items i desiredSize])
        with run Inl ge nonneg lo show ?thesis
          by (intro exI [of _ i] exI [of _ "[(DeleteCall (items ! nat i), Some e)]"]) auto
      next
        case (Inr u)
        with run0 ge inb dl have rec: "deletePods_loop c1 items (i - 1) desiredSize = (r, c')"
          by (simp add: deletePods_loop.simps [of c items i desiredSize])
        from lt have lt': "i - 1 < int (length items)" by simp
        from nonneg have lo': "- 1 \<le> i - 1" by simp
        from "1.IH" [OF ge inb dl [symmetric] Inr rec lt' lo']
        obtain j tl where j: "j \<le> i - 1" "instances c' = instances c1"
          "pods c' = filter (\<lambda>q. key_of q \<notin> (\<lambda>n. key_of (items ! nat n)) ` {j + 1..i - 1}) (pods c1)"
          "trace c' = trace c1 @ map (\<lambda>n. (DeleteCall (items ! nat n), None)) (rev [j + 1..i - 1]) @ tl"
          "(r = Inr () \<and> tl = [] \<and> j = min (i - 1) (desiredSize - 1)) \<or>
           (\<exists>e. r = Inl (Err e) \<and> desiredSize \<le> j \<and> 0 \<le> j
               \<and> tl = [(DeleteCall (items ! nat j), Some e)]) \<or>
           (r = Inl PanicIndexOutOfRange \<and> desiredSize \<le> j \<and> j < 0 \<and> tl = [])"
          "- 1 \<le> j"
          by blast
        from j(1) have up: "[j + 1..i] = [j + 1..i - 1] @ [i]"
          by (simp add: upto_rec2)
        from j(1) have st: "{j + 1..i} = insert i {j + 1..i - 1}"
          by auto
        from run Inr have c1: "instances c1 = instances c"
          "pods c1 = filter (\<lambda>q. key_of q \<noteq> key_of (items ! nat i)) (pods c)"
          "trace c1 = trace c @ [(DeleteCall (items ! nat i), None)]"
          by auto
        have "pods c' = filter (\<lambda>q. key_of q \<notin> (\<lambda>n. key_of (items ! nat n)) ` {j + 1..i}) (pods c)"
          unfolding j(3) c1(2) st by (auto intro: filter_cong)
        moreover have "trace c' = trace c @ map (\<lambda>n. (DeleteCall (items ! nat n), None)) (rev [j + 1..i]) @ tl"
          unfolding j(4) c1(3) up by simp
        moreover from j(5) ge j(1) have "(r = Inr () \<and> tl = [] \<and> j = min i (desiredSize - 1)) \<or>
           (\<exists>e. r = Inl (Err e) \<and> desiredSize \<le> j \<and> 0 \<le> j
               \<and> tl = [(DeleteCall (items ! nat j), Some e)]) \<or>
           (r = Inl PanicIndexOutOfRange \<and> desiredSize \<le> j \<and> j < 0 \<and> tl = [])"
          by (auto simp: min_def split: if_splits)
        ultimately show ?thesis
          using j(1,2,6) c1(1) by (intro exI [of _ j] exI [of _ tl]) simp
      qed
    qed
  qed
qed

text \<open>The equations that unfold a run of the model on a concrete store.\<close>

lemmas run_defs =
  Reconcile_def getAppInstance_def getPodList_def client_Get_def client_List_def
  client_Create_def client_Delete_def client_StatusUpdate_def next_fault_def record_call_def
  scalePods_def createPods_def deletePods_def createPods_loop.simps deletePods_loop.simps
  updateStatus_def newPod_def key_of_def IsNotFound_def matches_def podName_def format_d_def
  digits.simps digit_char_def Let_def
  demo_app_def demo_req_def demo_cluster_def events_since_def observedUnits_def wf_store_def
  created_pods_def deleted_pods_def projected_def demo_pod_def demo_pods_def
  demo_after_get_def demo_after_list_def demo_after_scale_def

subsection \<open>Names\<close>

lemma digit_char_inj: "a < 10 \<Longrightarrow> b < 10 \<Longrightarrow> digit_char a = digit_char b \<Longrightarrow> a = b"
proof -
  have d: "distinct ''0123456789''" by simp
  have l: "length ''0123456789'' = 10" by simp
  show "a < 10 \<Longrightarrow> b < 10 \<Longrightarrow> digit_char a = digit_char b \<Longrightarrow> a = b"
    unfolding digit_char_def using nth_eq_iff_index_eq [OF d, of a b] l by simp
qed

lemma digits_nonempty: "digits n \<noteq> []"
  by (subst digits.simps) simp

lemma digits_inj: "digits m = digits n \<Longrightarrow> m = n"
proof (induction m arbitrary: n rule: digits.induct)
  case (1 m)
  show ?case
  proof (cases "m < 10")
    case True
    show ?thesis
    proof (cases "n < 10")
      case nlt: True
      from "1.prems" True nlt have "digit_char m = digit_char n"
        by (simp add: digits.simps [of m] digits.simps [of n])
      with True nlt show ?thesis by (rule digit_char_inj)
    next
      case False
      with "1.prems" True have "digits (n div 10) = []"
        by (simp add: digits.simps [of m] digits.simps [of n])
      with digits_nonempty show ?thesis by blast
    qed
  next
    case False
    show ?thesis
    proof (cases "n < 10")
      case True
      with "1.prems" False have "digits (m div 10) = []"
        by (simp add: digits.simps [of m] digits.simps [of n])
      with digits_nonempty show ?thesis by blast
    next
      case nge: False
      from "1.prems" False nge
      have eq: "digits (m div 10) = digits (n div 10)" "digit_char (m mod 10) = digit_char (n mod 10)"
        by (simp_all add: digits.simps [of m] digits.simps [of n])
      from "1.IH" [OF False eq(1)] have "m div 10 = n div 10" .
      moreover from eq(2) have "m mod 10 = n mod 10"
        by (intro digit_char_inj) simp_all
      ultimately show ?thesis
        by (metis div_mult_mod_eq)
    qed
  qed
qed

lemma podName_inj: "0 \<le> i \<Longrightarrow> 0 \<le> j \<Longrightarrow> podName app i = podName app j \<Longrightarrow> i = j"
  using digits_inj [of "nat i" "nat j"] by (simp add: podName_def format_d_def)

lemma distinct_podNames: "0 \<le> a \<Longrightarrow> distinct (map (podName app) [a..b])"
proof -
  assume a: "0 \<le> a"
  have "inj_on (podName app) (set [a..b])"
  proof (rule inj_onI)
    fix x y assume "x \<in> set [a..b]" "y \<in> set [a..b]" "podName app x = podName app y"
    with a show "x = y" by (intro podName_inj [of x y app]) auto
  qed
  then show ?thesis by (simp add: distinct_map)
qed

lemma Name_newPod [simp]: "Name (newPod req app i) = podName app i"
  by (simp add: newPod_def)

lemma matches_newPod [simp]: "matches (ReqNamespace req) [(''app'', Name app)] (newPod req app i)"
  by (simp add: matches_def newPod_def)

subsection \<open>Index ranges and list segments\<close>

lemma map_nth_upto:
  "0 \<le> a \<Longrightarrow> map (\<lambda>n. xs ! nat n) [a..int (length xs) - 1] = drop (nat a) xs"
proof (rule nth_equalityI)
  assume a: "0 \<le> a"
  show "length (map (\<lambda>n. xs ! nat n) [a..int (length xs) - 1]) = length (drop (nat a) xs)"
    using a by auto
  fix k assume "k < length (map (\<lambda>n. xs ! nat n) [a..int (length xs) - 1])"
  then have k: "a + int k \<le> int (length xs) - 1" by auto
  then have "[a..int (length xs) - 1] ! k = a + int k" by (rule nth_upto)
  then show "map (\<lambda>n. xs ! nat n) [a..int (length xs) - 1] ! k = drop (nat a) xs ! k"
    using a k by (simp add: nat_add_distrib)
qed

lemma length_upto_int: "length [a..b] = nat (b - a + 1)"
  by simp

subsection \<open>Status\<close>

lemma podNames_foldl: "foldl (\<lambda>names pod. names @ [Name pod]) acc items = acc @ map Name items"
  by (induction items arbitrary: acc) simp_all

lemma updateStatus_run:
  assumes "updateStatus c app items = (r, c')"
  shows "pods c' = pods c \<and>
     ((r = Inr () \<and> trace c' = trace c @ [(StatusUpdateCall (projected app items), None)] \<and>
        (\<exists>stored. instances c (key_of app) = Some stored \<and>
           instances c' = (instances c)(key_of app \<mapsto> stored\<lparr>Status := \<lparr>Nodes = map Name items\<rparr>\<rparr>))) \<or>
      (\<exists>e. r = Inl (Err e) \<and> instances c' = instances c \<and>
         trace c' = trace c @ [(StatusUpdateCall (projected app items), Some e)]))"
proof -
  obtain x c1 where su: "client_StatusUpdate c (projected app items) = (x, c1)"
    by (cases "client_StatusUpdate c (projected app items)")
  have k: "key_of (projected app items) = key_of app"
    by (simp add: projected_def key_of_def)
  have st: "Status (projected app items) = \<lparr>Nodes = map Name items\<rparr>"
    by (simp add: projected_def)
  from assms su have "r = (case x of Inl e \<Rightarrow> Inl (Err e) | Inr u \<Rightarrow> Inr ())" "c' = c1"
    by (auto simp: updateStatus_def podNames_foldl projected_def split: sum.splits)
  with client_StatusUpdate_run [OF su] show ?thesis
    unfolding k st by auto
qed

subsection \<open>The scaling step\<close>

lemma scalePods_grow:
  assumes run: "scalePods c req app items = (r, c')"
    and lt: "int (length items) < Size (Spec app)"
  shows "\<exists>j tl. int (length items) \<le> j \<and> instances c' = instances c \<and>
       pods c' = pods c @ map (newPod req app) [int (length items)..j - 1] \<and>
       trace c' = trace c @
         map (\<lambda>n. (CreateCall (newPod req app n), None)) [int (length items)..j - 1] @ tl \<and>
       ((r = Inr () \<and> tl = [] \<and> j = Size (Spec app)) \<or>
        (\<exists>e. r = Inl (Err e) \<and> j < Size (Spec app)
            \<and> tl = [(CreateCall (newPod req app j), Some e)]))"
proof -
  from run lt
  have "createPods_loop c req app (int (length items)) (Size (Spec app)) = (r, c')"
    by (simp add: scalePods_def createPods_def)
  from createPods_loop_run [OF this] lt show ?thesis
    by (simp add: max_def)
qed

lemma deletePods_run:
  assumes run: "deletePods c items (int (length items)) desiredSize = (r, c')"
  shows "\<exists>k tl. k \<le> length items \<and> instances c' = instances c \<and>
       pods c' = filter (\<lambda>q. key_of q \<notin> key_of ` set (drop k items)) (pods c) \<and>
       trace c' = trace c @ map (\<lambda>p. (DeleteCall p, None)) (rev (drop k items)) @ tl \<and>
       ((r = Inr () \<and> tl = [] \<and> 0 \<le> desiredSize \<and> int k = min (int (length items)) desiredSize) \<or>
        (\<exists>e. r = Inl (Err e) \<and> desiredSize < int k \<and> 0 < k
            \<and> tl = [(DeleteCall (items ! (k - 1)), Some e)]) \<or>
        (r = Inl PanicIndexOutOfRange \<and> desiredSize < 0 \<and> k = 0 \<and> tl = []))"
proof -
  let ?n = "int (length items)"
  from run
  have "deletePods_loop c items (?n - 1) desiredSize = (r, c')"
    by (simp add: deletePods_def)
  from deletePods_loop_run [OF this]
  obtain j tl where j: "j \<le> ?n - 1" "- 1 \<le> j" "instances c' = instances c"
    "pods c' = filter (\<lambda>q. key_of q \<notin> (\<lambda>n. key_of (items ! nat n)) ` {j + 1..?n - 1}) (pods c)"
    "trace c' = trace c @ map (\<lambda>n. (DeleteCall (items ! nat n), None)) (rev [j + 1..?n - 1]) @ tl"
    "(r = Inr () \<and> tl = [] \<and> j = min (?n - 1) (desiredSize - 1)) \<or>
     (\<exists>e. r = Inl (Err e) \<and> desiredSize \<le> j \<and> 0 \<le> j
         \<and> tl = [(DeleteCall (items ! nat j), Some e)]) \<or>
     (r = Inl PanicIndexOutOfRange \<and> desiredSize \<le> j \<and> j < 0 \<and> tl = [])"
    by auto
  let ?k = "nat (j + 1)"
  from j(2) have seg: "map (\<lambda>n. items ! nat n) [j + 1..?n - 1] = drop ?k items"
    by (intro map_nth_upto) simp
  have "(\<lambda>n. key_of (items ! nat n)) ` {j + 1..?n - 1}
        = key_of ` set (map (\<lambda>n. items ! nat n) [j + 1..?n - 1])"
    by (simp add: image_image)
  then have keys: "(\<lambda>n. key_of (items ! nat n)) ` {j + 1..?n - 1} = key_of ` set (drop ?k items)"
    unfolding seg .
  have "map (\<lambda>n. (DeleteCall (items ! nat n), None)) (rev [j + 1..?n - 1])
        = map (\<lambda>p. (DeleteCall p, None)) (rev (map (\<lambda>n. items ! nat n) [j + 1..?n - 1]))"
    by (simp add: rev_map)
  then have evs: "map (\<lambda>n. (DeleteCall (items ! nat n), None)) (rev [j + 1..?n - 1])
        = map (\<lambda>p. (DeleteCall p, None)) (rev (drop ?k items))"
    unfolding seg .
  have k1: "?k \<le> length items" using j(1,2) by simp
  have k2: "pods c' = filter (\<lambda>q. key_of q \<notin> key_of ` set (drop ?k items)) (pods c)"
    using j(4) unfolding keys .
  have k3: "trace c' = trace c @ map (\<lambda>p. (DeleteCall p, None)) (rev (drop ?k items)) @ tl"
    using j(5) unfolding evs .
  have k4: "(r = Inr () \<and> tl = [] \<and> 0 \<le> desiredSize \<and> int ?k = min ?n desiredSize) \<or>
        (\<exists>e. r = Inl (Err e) \<and> desiredSize < int ?k \<and> 0 < ?k
            \<and> tl = [(DeleteCall (items ! (?k - 1)), Some e)]) \<or>
        (r = Inl PanicIndexOutOfRange \<and> desiredSize < 0 \<and> ?k = 0 \<and> tl = [])"
    using j(6)
  proof (elim disjE conjE exE)
    assume "r = Inr ()" "tl = []" "j = min (?n - 1) (desiredSize - 1)"
    with j(2) show ?thesis by (auto simp: min_def split: if_splits)
  next
    fix e assume "r = Inl (Err e)" "desiredSize \<le> j" "0 \<le> j"
      "tl = [(DeleteCall (items ! nat j), Some e)]"
    then show ?thesis by (simp add: nat_add_distrib)
  next
    assume "r = Inl PanicIndexOutOfRange" "desiredSize \<le> j" "j < 0" "tl = []"
    with j(2) show ?thesis by simp
  qed
  from k1 j(3) k2 k3 k4 show ?thesis
    by (intro exI [of _ ?k] exI [of _ tl]) simp
qed

lemma scalePods_shrink:
  assumes run: "scalePods c req app items = (r, c')"
    and gt: "Size (Spec app) < int (length items)"
  shows "\<exists>k tl. k \<le> length items \<and> instances c' = instances c \<and>
       pods c' = filter (\<lambda>q. key_of q \<notin> key_of ` set (drop k items)) (pods c) \<and>
       trace c' = trace c @ map (\<lambda>p. (DeleteCall p, None)) (rev (drop k items)) @ tl \<and>
       ((r = Inr () \<and> tl = [] \<and> int k = Size (Spec app)) \<or>
        (\<exists>e. r = Inl (Err e) \<and> Size (Spec app) < int k \<and> 0 < k
            \<and> tl = [(DeleteCall (items ! (k - 1)), Some e)]) \<or>
        (r = Inl PanicIndexOutOfRange \<and> Size (Spec app) < 0 \<and> k = 0 \<and> tl = []))"
proof -
  from run gt
  have "deletePods c items (int (length items)) (Size (Spec app)) = (r, c')"
    by (simp add: scalePods_def)
  from deletePods_run [OF this] obtain k tl where k: "k \<le> length items"
    "instances c' = instances c"
    "pods c' = filter (\<lambda>q. key_of q \<notin> key_of ` set (drop k items)) (pods c)"
    "trace c' = trace c @ map (\<lambda>p. (DeleteCall p, None)) (rev (drop k items)) @ tl"
    "(r = Inr () \<and> tl = [] \<and> 0 \<le> Size (Spec app)
        \<and> int k = min (int (length items)) (Size (Spec app))) \<or>
     (\<exists>e. r = Inl (Err e) \<and> Size (Spec app) < int k \<and> 0 < k
         \<and> tl = [(DeleteCall (items ! (k - 1)), Some e)]) \<or>
     (r = Inl PanicIndexOutOfRange \<and> Size (Spec app) < 0 \<and> k = 0 \<and> tl = [])"
    by blast
  from k(5) gt have "(r = Inr () \<and> tl = [] \<and> int k = Size (Spec app)) \<or>
     (\<exists>e. r = Inl (Err e) \<and> Size (Spec app) < int k \<and> 0 < k
         \<and> tl = [(DeleteCall (items ! (k - 1)), Some e)]) \<or>
     (r = Inl PanicIndexOutOfRange \<and> Size (Spec app) < 0 \<and> k = 0 \<and> tl = [])"
    by (auto simp: min_def)
  with k(1-4) show ?thesis
    by (intro exI [of _ k] exI [of _ tl]) simp
qed

lemma scalePods_equal:
  "int (length items) = Size (Spec app) \<Longrightarrow> scalePods c req app items = (Inr (), c)"
  by (simp add: scalePods_def)

subsection \<open>One pass after its two reads\<close>

lemma Reconcile_read:
  assumes "getAppInstance c req = (Inr app, c1)" "getPodList c1 req app = (Inr items, c2)"
  shows "Reconcile c req =
    (case scalePods c2 req app items of
       (Inl f, c3) \<Rightarrow> (Inl f, c3)
     | (Inr u, c3) \<Rightarrow> updateStatus c3 app items)"
  using assms by (simp add: Reconcile_def)

lemma read_facts:
  assumes get: "getAppInstance c req = (Inr app, c1)"
    and list: "getPodList c1 req app = (Inr items, c2)"
  shows "instances c2 = instances c" "pods c2 = pods c"
    "trace c2 = trace c @ [(GetCall (ReqNamespace req, ReqName req), None),
                           (ListCall (ReqNamespace req) [(''app'', Name app)], None)]"
    "items = filter (matches (ReqNamespace req) [(''app'', Name app)]) (pods c)"
    "instances c (ReqNamespace req, ReqName req) = Some app"
  using getAppInstance_run [OF get] getPodList_run [OF list] by auto

lemma drop_as_nth: "drop k xs = map (\<lambda>i. xs ! i) [k..<length xs]"
proof -
  have "map (\<lambda>i. xs ! i) [k..<length xs] = map (\<lambda>i. xs ! i) (drop k [0..<length xs])"
    by simp
  also have "\<dots> = drop k (map (\<lambda>i. xs ! i) [0..<length xs])"
    by (simp only: drop_map)
  also have "\<dots> = drop k xs"
    by (simp add: map_nth)
  finally show ?thesis by simp
qed

lemma rev_drop_Suc: "0 < k \<Longrightarrow> k \<le> length xs \<Longrightarrow> rev (drop k xs) @ [xs ! (k - 1)] = rev (drop (k - 1) xs)"
proof -
  assume k: "0 < k" "k \<le> length xs"
  then have "drop (k - 1) xs = xs ! (k - 1) # drop (Suc (k - 1)) xs"
    by (intro Cons_nth_drop_Suc [symmetric]) simp
  with k show ?thesis by simp
qed

lemma deletePods_attempts:
  assumes run: "deletePods c items (int (length items)) desiredSize = (r, c')"
  shows "\<exists>k. k \<le> length items \<and> delete_calls (events_since c c') = rev (drop k items) \<and>
     create_calls (events_since c c') = [] \<and> status_writes (events_since c c') = [] \<and>
     ((r = Inr () \<and> 0 \<le> desiredSize \<and> int k = min (int (length items)) desiredSize
         \<and> deleted_pods (events_since c c') = rev (drop k items)) \<or>
      (\<exists>e. r = Inl (Err e) \<and> desiredSize \<le> int k) \<or>
      (r = Inl PanicIndexOutOfRange \<and> desiredSize < 0 \<and> k = 0))"
proof -
  from deletePods_run [OF run] obtain k tl where k: "k \<le> length items"
    "trace c' = trace c @ map (\<lambda>p. (DeleteCall p, None)) (rev (drop k items)) @ tl"
    "(r = Inr () \<and> tl = [] \<and> 0 \<le> desiredSize \<and> int k = min (int (length items)) desiredSize) \<or>
     (\<exists>e. r = Inl (Err e) \<and> desiredSize < int k \<and> 0 < k
         \<and> tl = [(DeleteCall (items ! (k - 1)), Some e)]) \<or>
     (r = Inl PanicIndexOutOfRange \<and> desiredSize < 0 \<and> k = 0 \<and> tl = [])"
    by blast
  note ev = events_sinceI [OF k(2)]
  from k(3) show ?thesis
  proof (elim disjE conjE exE)
    assume "r = Inr ()" "tl = []" "0 \<le> desiredSize" "int k = min (int (length items)) desiredSize"
    with k(1) ev show ?thesis
      by (intro exI [of _ k]) (simp add: deleted_pods_def)
  next
    fix e assume e: "r = Inl (Err e)" "desiredSize < int k" "0 < k"
      "tl = [(DeleteCall (items ! (k - 1)), Some e)]"
    with k(1) ev rev_drop_Suc [of k items] show ?thesis
      by (intro exI [of _ "k - 1"]) auto
  next
    assume "r = Inl PanicIndexOutOfRange" "desiredSize < 0" "k = 0" "tl = []"
    with ev show ?thesis
      by (intro exI [of _ 0]) simp
  qed
qed

subsection \<open>A pass that runs to its end\<close>

lemma Reconcile_success:
  assumes get: "getAppInstance c req = (Inr app, c1)"
    and list: "getPodList c1 req app = (Inr items, c2)"
    and pass: "Reconcile c req = (Inr (), c')"
  shows "\<exists>c3. scalePods c2 req app items = (Inr (), c3) \<and> updateStatus c3 app items = (Inr (), c')"
proof -
  obtain x c3 where sc: "scalePods c2 req app items = (x, c3)"
    by (cases "scalePods c2 req app items")
  with pass Reconcile_read [OF get list] show ?thesis
    by (cases x) auto
qed

lemma pass_success:
  assumes get: "getAppInstance c req = (Inr app, c1)"
    and list: "getPodList c1 req app = (Inr items, c2)"
    and pass: "Reconcile c req = (Inr (), c')"
  shows "\<exists>evs. events_since c c' =
        [(GetCall (ReqNamespace req, ReqName req), None),
         (ListCall (ReqNamespace req) [(''app'', Name app)], None)] @ evs @
        [(StatusUpdateCall (projected app items), None)] \<and>
      observedUnits c' (key_of app) = Some (map Name items) \<and>
      ((int (length items) < Size (Spec app) \<and>
          evs = map (\<lambda>n. (CreateCall (newPod req app n), None)) [int (length items)..Size (Spec app) - 1] \<and>
          pods c' = pods c @ map (newPod req app) [int (length items)..Size (Spec app) - 1]) \<or>
       (Size (Spec app) < int (length items) \<and> 0 \<le> Size (Spec app) \<and>
          evs = map (\<lambda>p. (DeleteCall p, None)) (rev (drop (nat (Size (Spec app))) items)) \<and>
          pods c' = filter (\<lambda>q. key_of q \<notin> key_of ` set (drop (nat (Size (Spec app))) items)) (pods c)) \<or>
       (int (length items) = Size (Spec app) \<and> evs = [] \<and> pods c' = pods c))"
proof -
  from Reconcile_success [OF get list pass] obtain c3 where
    sc: "scalePods c2 req app items = (Inr (), c3)" and
    us: "updateStatus c3 app items = (Inr (), c')"
    by blast
  note rd = read_facts [OF get list]
  from updateStatus_run [OF us] have st: "pods c' = pods c3"
    "trace c' = trace c3 @ [(StatusUpdateCall (projected app items), None)]"
    "observedUnits c' (key_of app) = Some (map Name items)"
    by (auto simp: observedUnits_def)
  consider (grow) "int (length items) < Size (Spec app)"
    | (shrink) "Size (Spec app) < int (length items)"
    | (equal) "int (length items) = Size (Spec app)"
    by linarith
  then show ?thesis
  proof cases
    case grow
    from scalePods_grow [OF sc grow]
    have "pods c3 = pods c2 @ map (newPod req app) [int (length items)..Size (Spec app) - 1]"
      "trace c3 = trace c2 @
         map (\<lambda>n. (CreateCall (newPod req app n), None)) [int (length items)..Size (Spec app) - 1]"
      by auto
    with rd st grow show ?thesis
      by (intro exI [of _ "map (\<lambda>n. (CreateCall (newPod req app n), None)) [int (length items)..Size (Spec app) - 1]"])
        (simp add: events_since_def)
  next
    case shrink
    from scalePods_shrink [OF sc shrink]
    obtain k where k: "int k = Size (Spec app)"
      "pods c3 = filter (\<lambda>q. key_of q \<notin> key_of ` set (drop k items)) (pods c2)"
      "trace c3 = trace c2 @ map (\<lambda>p. (DeleteCall p, None)) (rev (drop k items))"
      by auto
    from k(1) have kk: "k = nat (Size (Spec app))" "0 \<le> Size (Spec app)" by simp_all
    with rd st shrink k(2,3) show ?thesis
      by (intro exI [of _ "map (\<lambda>p. (DeleteCall p, None)) (rev (drop (nat (Size (Spec app))) items))"])
        (simp add: events_since_def)
  next
    case equal
    with sc have "c3 = c2" by (simp add: scalePods_equal)
    with rd st equal show ?thesis
      by (intro exI [of _ "[]"]) (simp add: events_since_def)
  qed
qed

lemma scalePods_trace:
  assumes run: "scalePods c req app items = (r, c')"
  shows "\<exists>evs. trace c' = trace c @ evs \<and> status_writes evs = [] \<and> instances c' = instances c"
proof -
  consider (grow) "int (length items) < Size (Spec app)"
    | (shrink) "Size (Spec app) < int (length items)"
    | (equal) "int (length items) = Size (Spec app)"
    by linarith
  then show ?thesis
  proof cases
    case grow
    from scalePods_grow [OF run grow] obtain j tl where
      "trace c' = trace c @
         map (\<lambda>n. (CreateCall (newPod req app n), None)) [int (length items)..j - 1] @ tl"
      "instances c' = instances c"
      "tl = [] \<or> (\<exists>e. tl = [(CreateCall (newPod req app j), Some e)])"
      by blast
    then show ?thesis
      by (intro exI [of _ "map (\<lambda>n. (CreateCall (newPod req app n), None)) [int (length items)..j - 1] @ tl"])
        auto
  next
    case shrink
    from scalePods_shrink [OF run shrink] obtain k tl where
      "trace c' = trace c @ map (\<lambda>p. (DeleteCall p, None)) (rev (drop k items)) @ tl"
      "instances c' = instances c"
      "tl = [] \<or> (\<exists>e. tl = [(DeleteCall (items ! (k - 1)), Some e)])"
      by blast
    then show ?thesis
      by (intro exI [of _ "map (\<lambda>p. (DeleteCall p, None)) (rev (drop k items)) @ tl"]) auto
  next
    case equal
    with run have "c' = c" by (simp add: scalePods_equal)
    then show ?thesis by simp
  qed
qed

subsection \<open>The observed pods after a pass\<close>

lemma filter_keys_take:
  assumes "distinct (map f xs)"
  shows "filter (\<lambda>q. f q \<notin> f ` set (drop n xs)) xs = take n xs"
proof -
  from assms have "distinct (map f (take n xs @ drop n xs))" by simp
  then have disj: "f ` set (take n xs) \<inter> f ` set (drop n xs) = {}"
    by (simp only: map_append distinct_append set_map)
  have "filter (\<lambda>q. f q \<notin> f ` set (drop n xs)) (take n xs) = take n xs"
    using disj by (intro filter_True) auto
  moreover have "filter (\<lambda>q. f q \<notin> f ` set (drop n xs)) (drop n xs) = []"
    by (intro filter_False) auto
  ultimately have "filter (\<lambda>q. f q \<notin> f ` set (drop n xs)) (take n xs @ drop n xs) = take n xs"
    by (simp only: filter_append) simp
  then show ?thesis by simp
qed

lemma Reconcile_success_list:
  assumes get: "getAppInstance c req = (Inr app, c1)"
    and pass: "Reconcile c req = (Inr (), c')"
  shows "\<exists>items c2. getPodList c1 req app = (Inr items, c2)"
proof -
  obtain y c2 where l: "getPodList c1 req app = (y, c2)"
    by (cases "getPodList c1 req app")
  with get pass show ?thesis
    by (cases y) (auto simp: Reconcile_def)
qed

lemma pass_converges:
  assumes wf: "wf_store c"
    and get: "getAppInstance c req = (Inr app, c1)"
    and list: "getPodList c1 req app = (Inr items, c2)"
    and pass: "Reconcile c req = (Inr (), c')"
  shows "int (length (filter (matches (ReqNamespace req) [(''app'', Name app)]) (pods c')))
      = Size (Spec app)"
proof -
  let ?m = "matches (ReqNamespace req) [(''app'', Name app)]"
  note rd = read_facts [OF get list]
  from rd have items: "items = filter ?m (pods c)" by simp
  from wf have dist: "distinct (map key_of items)"
    unfolding items wf_store_def by (rule distinct_map_filter)
  from pass_success [OF get list pass]
  consider (grow) "int (length items) < Size (Spec app)"
      "pods c' = pods c @ map (newPod req app) [int (length items)..Size (Spec app) - 1]"
    | (shrink) "Size (Spec app) < int (length items)" "0 \<le> Size (Spec app)"
      "pods c' = filter (\<lambda>q. key_of q \<notin> key_of ` set (drop (nat (Size (Spec app))) items)) (pods c)"
    | (equal) "int (length items) = Size (Spec app)" "pods c' = pods c"
    by blast
  then show ?thesis
  proof cases
    case grow
    have "filter ?m (map (newPod req app) [int (length items)..Size (Spec app) - 1])
        = map (newPod req app) [int (length items)..Size (Spec app) - 1]"
      by (intro filter_True) auto
    with grow items have "filter ?m (pods c')
        = items @ map (newPod req app) [int (length items)..Size (Spec app) - 1]"
      by simp
    with grow(1) show ?thesis by simp
  next
    case shrink
    let ?K = "key_of ` set (drop (nat (Size (Spec app))) items)"
    have "filter ?m (pods c') = filter (\<lambda>q. key_of q \<notin> ?K) (filter ?m (pods c))"
      unfolding shrink(3) by (simp add: conj_commute)
    also have "\<dots> = take (nat (Size (Spec app))) items"
      unfolding items [symmetric] using dist by (rule filter_keys_take)
    finally show ?thesis using shrink(1,2) by simp
  next
    case equal
    with items show ?thesis by simp
  qed
qed

lemma pass_keeps_instance:
  assumes get: "getAppInstance c req = (Inr app, c1)"
    and list: "getPodList c1 req app = (Inr items, c2)"
    and pass: "Reconcile c req = (r, c')"
    and inst: "instances c' (ReqNamespace req, ReqName req) = Some a"
  shows "Spec a = Spec app \<and> Name a = Name app"
proof -
  note rd = read_facts [OF get list]
  obtain x c3 where sc: "scalePods c2 req app items = (x, c3)"
    by (cases "scalePods c2 req app items")
  from scalePods_trace [OF sc] have i3: "instances c3 = instances c2" by blast
  show ?thesis
  proof (cases x)
    case (Inl f)
    with sc pass Reconcile_read [OF get list] have "c' = c3" by simp
    with i3 rd inst show ?thesis by simp
  next
    case (Inr u)
    with sc pass Reconcile_read [OF get list] have us: "updateStatus c3 app items = (r, c')"
      by simp
    from updateStatus_run [OF us]
    consider (same) "instances c' = instances c3"
      | (upd) stored where "instances c3 (key_of app) = Some stored"
          "instances c' = (instances c3)(key_of app \<mapsto> stored\<lparr>Status := \<lparr>Nodes = map Name items\<rparr>\<rparr>)"
      by blast
    then show ?thesis
    proof cases
      case same
      with i3 rd inst show ?thesis by simp
    next
      case upd
      show ?thesis
      proof (cases "key_of app = (ReqNamespace req, ReqName req)")
        case True
        with upd i3 rd have "stored = app" by simp
        with upd True inst have "a = app\<lparr>Status := \<lparr>Nodes = map Name items\<rparr>\<rparr>" by simp
        then show ?thesis by simp
      next
        case False
        with upd i3 rd inst have "a = app" by simp
        then show ?thesis by simp
      qed
    qed
  qed
qed

subsection \<open>Unique pod keys are preserved\<close>

lemma client_Create_wf:
  assumes "wf_store c" "client_Create c p = (r, c')"
  shows "wf_store c'"
proof -
  obtain f c1 where nf: "next_fault c = (f, c1)" by (cases "next_fault c")
  note fields = next_fault_fields [OF nf]
  from assms nf fields show ?thesis
    by (cases f) (auto simp: client_Create_def record_call_def wf_store_def split: if_splits)
qed

lemma client_Delete_wf:
  assumes "wf_store c" "client_Delete c p = (r, c')"
  shows "wf_store c'"
proof -
  from client_Delete_run [OF assms(2)]
  have "pods c' = filter (\<lambda>q. key_of q \<noteq> key_of p) (pods c) \<or> pods c' = pods c"
    by auto
  with assms(1) show ?thesis
    by (auto simp: wf_store_def distinct_map_filter)
qed

lemma createPods_loop_wf:
  "wf_store c \<Longrightarrow> createPods_loop c req app i desiredSize = (r, c') \<Longrightarrow> wf_store c'"
proof (induction c req app i desiredSize arbitrary: r c' rule: createPods_loop.induct)
  case (1 c req app i desiredSize)
  show ?case
  proof (cases "i < desiredSize")
    case False
    with "1.prems" show ?thesis
      by (simp add: createPods_loop.simps [of c req app i desiredSize])
  next
    case True
    obtain x c1 where cr: "client_Create c (newPod req app i) = (x, c1)"
      by (cases "client_Create c (newPod req app i)")
    from client_Create_wf [OF "1.prems"(1) cr] have wf1: "wf_store c1" .
    show ?thesis
    proof (cases x)
      case (Inl e)
      with "1.prems" True cr wf1 show ?thesis
        by (simp add: createPods_loop.simps [of c req app i desiredSize])
    next
      case (Inr u)
      with "1.prems" True cr have rec: "createPods_loop c1 req app (i + 1) desiredSize = (r, c')"
        by (simp add: createPods_loop.simps [of c req app i desiredSize])
      from "1.IH" [OF True cr [symmetric] Inr wf1 rec] show ?thesis .
    qed
  qed
qed

lemma deletePods_loop_wf:
  "wf_store c \<Longrightarrow> deletePods_loop c items i desiredSize = (r, c') \<Longrightarrow> wf_store c'"
proof (induction c items i desiredSize arbitrary: r c' rule: deletePods_loop.induct)
  case (1 c items i desiredSize)
  show ?case
  proof (cases "desiredSize \<le> i \<and> 0 \<le> i \<and> i < int (length items)")
    case False
    with "1.prems" have "c' = c"
      by (auto simp: deletePods_loop.simps [of c items i desiredSize] split: if_splits)
    with "1.prems" show ?thesis by simp
  next
    case True
    obtain x c1 where dl: "client_Delete c (items ! nat i) = (x, c1)"
      by (cases "client_Delete c (items ! nat i)")
    from client_Delete_wf [OF "1.prems"(1) dl] have wf1: "wf_store c1" .
    show ?thesis
    proof (cases x)
      case (Inl e)
      with "1.prems" True dl wf1 show ?thesis
        by (simp add: deletePods_loop.simps [of c items i desiredSize])
    next
      case (Inr u)
      with "1.prems" True dl have rec: "deletePods_loop c1 items (i - 1) desiredSize = (r, c')"
        by (simp add: deletePods_loop.simps [of c items i desiredSize])
      from True have ge: "desiredSize \<le> i" and inb: "0 \<le> i \<and> i < int (length items)"
        by simp_all
      from "1.IH" [OF ge inb dl [symmetric] Inr wf1 rec] show ?thesis .
    qed
  qed
qed

lemma Reconcile_wf:
  assumes wf: "wf_store c" and pass: "Reconcile c req = (r, c')"
  shows "wf_store c'"
proof -
  have same: "\<And>d d'. pods d' = pods d \<Longrightarrow> wf_store d \<Longrightarrow> wf_store d'"
    by (simp add: wf_store_def)
  obtain x c1 where get: "getAppInstance c req = (x, c1)"
    by (cases "getAppInstance c req")
  from getAppInstance_run [OF get] wf have wf1: "wf_store c1"
    by (intro same [of c1 c]) simp_all
  show ?thesis
  proof (cases x)
    case (Inl e)
    with pass get have "c' = c1" by (auto simp: Reconcile_def split: if_splits)
    with wf1 show ?thesis by simp
  next
    case (Inr app)
    obtain y c2 where list: "getPodList c1 req app = (y, c2)"
      by (cases "getPodList c1 req app")
    from getPodList_run [OF list] wf1 have wf2: "wf_store c2"
      by (intro same [of c2 c1]) simp_all
    show ?thesis
    proof (cases y)
      case (Inl e)
      with pass get list Inr have "c' = c2" by (simp add: Reconcile_def)
      with wf2 show ?thesis by simp
    next
      case items: (Inr items)
      obtain z c3 where sc: "scalePods c2 req app items = (z, c3)"
        by (cases "scalePods c2 req app items")
      then have wf3: "wf_store c3"
        using wf2 createPods_loop_wf [of c2 req app "int (length items)" "Size (Spec app)" z c3]
          deletePods_loop_wf [of c2 items "int (length items) - 1" "Size (Spec app)" z c3]
        by (auto simp: scalePods_def createPods_def deletePods_def Let_def split: if_splits)
      show ?thesis
      proof (cases z)
        case (Inl f)
        with pass get list Inr items sc have "c' = c3" by (simp add: Reconcile_def)
        with wf3 show ?thesis by simp
      next
        case u: (Inr u)
        with pass get list Inr items sc have us: "updateStatus c3 app items = (r, c')"
          by (simp add: Reconcile_def)
        from updateStatus_run [OF us] wf3 show ?thesis
          by (intro same [of c' c3]) simp_all
      qed
    qed
  qed
qed

subsection \<open>Runs on which the store fails no call for an outside reason\<close>

lemma next_fault_quiet: "faults c = [] \<Longrightarrow> next_fault c = (None, c)"
  by (simp add: next_fault_def)

lemma key_of_newPod: "key_of (newPod req app i) = (ReqNamespace req, Name app @ ''-pod-'' @ format_d i)"
  by (simp add: key_of_def newPod_def podName_def)

lemma getAppInstance_quiet:
  assumes "faults c = []" "instances c (ReqNamespace req, ReqName req) = Some a"
  shows "\<exists>c1. getAppInstance c req = (Inr a, c1) \<and> faults c1 = []"
  using assms by (simp add: getAppInstance_def client_Get_def next_fault_quiet record_call_def)

lemma getPodList_quiet:
  assumes "faults c = []"
  shows "\<exists>items c2. getPodList c req app = (Inr items, c2) \<and> faults c2 = []"
  using assms by (simp add: getPodList_def client_List_def next_fault_quiet record_call_def)

lemma client_Create_quiet:
  assumes "faults c = []" "key_of p \<notin> set (map key_of (pods c))"
  shows "\<exists>c1. client_Create c p = (Inr (), c1) \<and> faults c1 = [] \<and> pods c1 = pods c @ [p]"
  using assms by (simp add: client_Create_def next_fault_quiet record_call_def)

lemma updateStatus_quiet:
  assumes "faults c = []" "instances c (key_of app) = Some stored"
  shows "fst (updateStatus c app items) = Inr ()"
proof -
  have "key_of (app\<lparr>Status := (Status app)\<lparr>Nodes := foldl (\<lambda>names pod. names @ [Name pod]) [] items\<rparr>\<rparr>)
      = key_of app"
    by (simp add: key_of_def)
  with assms show ?thesis
    by (simp add: updateStatus_def client_StatusUpdate_def next_fault_quiet record_call_def Let_def)
qed

lemma createPods_loop_quiet:
  "faults c = [] \<Longrightarrow> 0 \<le> i \<Longrightarrow>
   set (map (\<lambda>n. key_of (newPod req app n)) [i..desiredSize - 1]) \<inter> set (map key_of (pods c)) = {} \<Longrightarrow>
   \<exists>c'. createPods_loop c req app i desiredSize = (Inr (), c') \<and> faults c' = []"
proof (induction c req app i desiredSize rule: createPods_loop.induct)
  case (1 c req app i desiredSize)
  show ?case
  proof (cases "i < desiredSize")
    case False
    with "1.prems"(1) show ?thesis
      by (simp add: createPods_loop.simps [of c req app i desiredSize])
  next
    case True
    then have up: "[i..desiredSize - 1] = i # [i + 1..desiredSize - 1]"
      by (simp add: upto_rec1)
    from "1.prems"(3) have free: "key_of (newPod req app i) \<notin> set (map key_of (pods c))"
      unfolding up by auto
    from client_Create_quiet [OF "1.prems"(1) free] obtain c1 where
      cr: "client_Create c (newPod req app i) = (Inr (), c1)" and q1: "faults c1 = []"
      and p1: "pods c1 = pods c @ [newPod req app i]"
      by blast
    have fresh: "key_of (newPod req app i) \<notin> (\<lambda>n. key_of (newPod req app n)) ` {i + 1..desiredSize - 1}"
    proof
      assume "key_of (newPod req app i) \<in> (\<lambda>n. key_of (newPod req app n)) ` {i + 1..desiredSize - 1}"
      then obtain n where n: "i + 1 \<le> n" "key_of (newPod req app i) = key_of (newPod req app n)"
        by auto
      then have "podName app i = podName app n"
        by (simp add: key_of_def)
      with "1.prems"(2) n(1) have "i = n" by (intro podName_inj [of i n app]) simp_all
      with n(1) show False by simp
    qed
    from "1.prems"(3) have "set (map (\<lambda>n. key_of (newPod req app n)) [i + 1..desiredSize - 1])
        \<inter> set (map key_of (pods c)) = {}"
      unfolding up by auto
    with fresh p1 have free1: "set (map (\<lambda>n. key_of (newPod req app n)) [i + 1..desiredSize - 1])
        \<inter> set (map key_of (pods c1)) = {}"
      by auto
    from "1.prems"(2) have i1: "0 \<le> i + 1" by simp
    from "1.IH" [OF True cr [symmetric] refl q1 i1 free1] obtain c' where
      "createPods_loop c1 req app (i + 1) desiredSize = (Inr (), c')" "faults c' = []"
      by blast
    with True cr show ?thesis
      by (simp add: createPods_loop.simps [of c req app i desiredSize])
  qed
qed

subsection \<open>Two passes of growth\<close>

lemma growth_resumes_run:
  fixes M k :: int and items :: "Pod list" and c c' :: cluster
  defines "M \<equiv> int (length items)"
    and "k \<equiv> int (length (created_pods (events_since c c')))"
  assumes get: "getAppInstance c req = (Inr app, c1)"
    and list: "getPodList c1 req app = (Inr items, c2)"
    and first: "Reconcile c req = (r1, c')"
    and short: "M + k < Size (Spec app)"
    and get2: "getAppInstance c' req = (Inr app2, d1)"
    and second: "Reconcile c' req = (Inr (), c'')"
  shows "r1 \<noteq> Inr () \<and>
    map Name (created_pods (events_since c c'))
      = map (\<lambda>i. Name app @ ''-pod-'' @ format_d i) [M..M + k - 1] \<and>
    map Name (created_pods (events_since c' c''))
      = map (\<lambda>i. Name app @ ''-pod-'' @ format_d i) [M + k..Size (Spec app) - 1] \<and>
    int (length (created_pods (events_since c' c''))) = Size (Spec app) - M - k \<and>
    distinct (map Name (created_pods (events_since c c') @ created_pods (events_since c' c''))) \<and>
    pods c'' = pods c @ created_pods (events_since c c') @ created_pods (events_since c' c'') \<and>
    (wf_store c \<longrightarrow> wf_store c'')"
proof -
  let ?N = "Size (Spec app)"
  let ?m = "matches (ReqNamespace req) [(''app'', Name app)]"
  note rd = read_facts [OF get list]
  have k0: "0 \<le> k" by (simp add: k_def)
  have M0: "0 \<le> M" by (simp add: M_def)
  from short k0 have grow: "int (length items) < ?N" by (simp add: M_def)
  obtain x c3 where sc: "scalePods c2 req app items = (x, c3)"
    by (cases "scalePods c2 req app items")
  from scalePods_grow [OF sc grow] obtain j tl where j: "M \<le> j"
    "instances c3 = instances c2"
    "pods c3 = pods c2 @ map (newPod req app) [M..j - 1]"
    "trace c3 = trace c2 @ map (\<lambda>n. (CreateCall (newPod req app n), None)) [M..j - 1] @ tl"
    "(x = Inr () \<and> tl = [] \<and> j = ?N) \<or>
     (\<exists>e. x = Inl (Err e) \<and> j < ?N \<and> tl = [(CreateCall (newPod req app j), Some e)])"
    unfolding M_def by blast
  \<comment> \<open>The first pass has not completed its creations, so the scaling step failed.\<close>
  have failed: "\<exists>e. x = Inl (Err e) \<and> j < ?N \<and> tl = [(CreateCall (newPod req app j), Some e)]"
  proof (rule ccontr)
    assume "\<not> ?thesis"
    with j(5) have ok: "x = Inr ()" "tl = []" "j = ?N" by auto
    with sc first Reconcile_read [OF get list] have us: "updateStatus c3 app items = (r1, c')"
      by simp
    from updateStatus_run [OF us] obtain out where
      "trace c' = trace c3 @ [(StatusUpdateCall (projected app items), out)]"
      by auto
    with j(4) ok rd have "created_pods (events_since c c') = map (newPod req app) [M..?N - 1]"
      by (simp add: events_since_def created_pods_def acked_def)
    with grow have "k = ?N - M" by (simp add: k_def M_def)
    with short show False by simp
  qed
  then obtain e where e: "x = Inl (Err e)" "j < ?N" "tl = [(CreateCall (newPod req app j), Some e)]"
    by blast
  with sc first Reconcile_read [OF get list] have r1: "r1 = Inl (Err e)" and c': "c' = c3"
    by simp_all
  from j(4) e(3) rd c' have cr1: "created_pods (events_since c c') = map (newPod req app) [M..j - 1]"
    by (simp add: events_since_def created_pods_def)
  with j(1) have jk: "j = M + k" by (simp add: k_def)
  \<comment> \<open>The second pass sees the same instance and the pods of the first pass.\<close>
  from getAppInstance_run [OF get2]
  have "instances c' (ReqNamespace req, ReqName req) = Some app2" by auto
  with c' j(2) rd have app2: "app2 = app" by simp
  from Reconcile_success_list [OF get2 second] obtain items2 d2 where
    list2: "getPodList d1 req app2 = (Inr items2, d2)" by blast
  from read_facts [OF get2 list2] app2 have "items2 = filter ?m (pods c')" by simp
  also have "\<dots> = items @ filter ?m (map (newPod req app) [M..j - 1])"
    unfolding c' j(3) using rd by simp
  also have "filter ?m (map (newPod req app) [M..j - 1]) = map (newPod req app) [M..j - 1]"
    by (intro filter_True) auto
  finally have len2: "int (length items2) = M + k"
    using j(1) jk by (simp add: M_def)
  from pass_success [OF get2 list2 second] len2 e(2) jk app2
  have ps2: "pods c'' = pods c' @ map (newPod req app) [M + k..?N - 1]"
    by auto
  from pass_success [OF get2 list2 second] len2 e(2) jk app2
  have ev2: "\<exists>a b. events_since c' c'' =
      a @ map (\<lambda>n. (CreateCall (newPod req app n), None)) [M + k..?N - 1] @
      [(StatusUpdateCall b, None)] \<and> create_calls a = [] \<and> acked a = a"
    by (intro exI [of _ "[(GetCall (ReqNamespace req, ReqName req), None),
         (ListCall (ReqNamespace req) [(''app'', Name app)], None)]"]
        exI [of _ "projected app items2"]) auto
  then have cr2: "created_pods (events_since c' c'') = map (newPod req app) [M + k..?N - 1]"
    by (auto simp: created_pods_def)
  have nm: "\<And>is. map Name (map (newPod req app) is) = map (\<lambda>i. Name app @ ''-pod-'' @ format_d i) is"
    by (simp add: podName_def)
  have split: "[M..?N - 1] = [M..M + k - 1] @ [M + k..?N - 1]"
    using k0 short by (intro upto_split1) simp_all
  have "map Name (created_pods (events_since c c') @ created_pods (events_since c' c''))
      = map (podName app) [M..?N - 1]"
    unfolding cr1 cr2 jk split by simp
  moreover have "distinct (map (podName app) [M..?N - 1])"
    using M0 by (rule distinct_podNames)
  ultimately
  have dist: "distinct (map Name (created_pods (events_since c c') @ created_pods (events_since c' c'')))"
    by simp
  have wf: "wf_store c \<longrightarrow> wf_store c''"
    using Reconcile_wf [OF _ first] Reconcile_wf [OF _ second] by blast
  have n1: "map Name (created_pods (events_since c c'))
      = map (\<lambda>i. Name app @ ''-pod-'' @ format_d i) [M..M + k - 1]"
    unfolding cr1 jk by (rule nm)
  have n2: "map Name (created_pods (events_since c' c''))
      = map (\<lambda>i. Name app @ ''-pod-'' @ format_d i) [M + k..?N - 1]"
    unfolding cr2 by (rule nm)
  have n3: "int (length (created_pods (events_since c' c''))) = ?N - M - k"
    unfolding cr2 using short by simp
  from r1 have n0: "r1 \<noteq> Inr ()" by simp
  from c' j(3) rd have ps1: "pods c' = pods c @ map (newPod req app) [M..j - 1]"
    by simp
  have n4: "pods c'' = pods c @ created_pods (events_since c c') @ created_pods (events_since c' c'')"
    unfolding cr1 cr2 ps2 ps1 by simp
  from n0 n1 n2 n3 dist n4 wf show ?thesis
    by (intro conjI)
qed

section \<open>Properties of a reconciliation pass\<close>

text \<open>
  C1 (amended). A pass that finds the instance, observes no pods and ends without error
  has created exactly \<open>Size\<close> pods, named after the instance with the suffix \<open>-pod-\<close> and
  the indices \<open>0\<close> to \<open>Size - 1\<close>, all distinct, and has deleted none. The status it has
  written is the list of names it observed before creating the pods, which is empty.
\<close>

theorem fresh_pass_creates_all:
  assumes get: "getAppInstance c req = (Inr app, c1)"
    and list: "getPodList c1 req app = (Inr [], c2)"
    and pass: "Reconcile c req = (Inr (), c')"
  shows "map Name (created_pods (events_since c c'))
       = map (\<lambda>i. Name app @ ''-pod-'' @ format_d i) [0..Size (Spec app) - 1] \<and>
     int (length (created_pods (events_since c c'))) = Size (Spec app) \<and>
     distinct (map Name (created_pods (events_since c c'))) \<and>
     delete_calls (events_since c c') = [] \<and>
     pods c' = pods c @ created_pods (events_since c c') \<and>
     observedUnits c' (key_of app) = Some []"
proof -
  from pass_success [OF get list pass]
  have ev: "events_since c c' =
        [(GetCall (ReqNamespace req, ReqName req), None),
         (ListCall (ReqNamespace req) [(''app'', Name app)], None)] @
        map (\<lambda>n. (CreateCall (newPod req app n), None)) [0..Size (Spec app) - 1] @
        [(StatusUpdateCall (projected app []), None)]"
    and ps: "pods c' = pods c @ map (newPod req app) [0..Size (Spec app) - 1]"
    and st: "observedUnits c' (key_of app) = Some []"
    and sz: "0 \<le> Size (Spec app)"
    by auto
  have cr: "created_pods (events_since c c') = map (newPod req app) [0..Size (Spec app) - 1]"
    unfolding ev by (simp add: created_pods_def)
  have nm: "map Name (created_pods (events_since c c')) = map (podName app) [0..Size (Spec app) - 1]"
    unfolding cr by simp
  have n1: "map Name (created_pods (events_since c c'))
       = map (\<lambda>i. Name app @ ''-pod-'' @ format_d i) [0..Size (Spec app) - 1]"
    unfolding cr by (simp add: podName_def)
  have n2: "int (length (created_pods (events_since c c'))) = Size (Spec app)"
    unfolding cr using sz by simp
  have n3: "distinct (map Name (created_pods (events_since c c')))"
    unfolding nm by (rule distinct_podNames) simp
  have n4: "delete_calls (events_since c c') = []"
    unfolding ev by simp
  have n5: "pods c' = pods c @ created_pods (events_since c c')"
    unfolding cr by (rule ps)
  from n1 n2 n3 n4 n5 st show ?thesis
    by (intro conjI)
qed

theorem fresh_pass_creates_all_witness:
  "getAppInstance (demo_cluster 3 [] []) demo_req
     = (Inr (demo_app 3), snd (getAppInstance (demo_cluster 3 [] []) demo_req)) \<and>
   getPodList (snd (getAppInstance (demo_cluster 3 [] []) demo_req)) demo_req (demo_app 3)
     = (Inr [], snd (getPodList (snd (getAppInstance (demo_cluster 3 [] []) demo_req)) demo_req (demo_app 3))) \<and>
   Reconcile (demo_cluster 3 [] []) demo_req = (Inr (), snd (Reconcile (demo_cluster 3 [] []) demo_req)) \<and>
   map Name (created_pods (events_since (demo_cluster 3 [] []) (snd (Reconcile (demo_cluster 3 [] []) demo_req))))
     = [''app-pod-0'', ''app-pod-1'', ''app-pod-2''] \<and>
   observedUnits (snd (Reconcile (demo_cluster 3 [] []) demo_req)) (''default'', ''app'') = Some []"
proof -
  have get: "getAppInstance (demo_cluster 3 [] []) demo_req
     = (Inr (demo_app 3), snd (getAppInstance (demo_cluster 3 [] []) demo_req))"
    by (simp add: run_defs)
  have list: "getPodList (snd (getAppInstance (demo_cluster 3 [] []) demo_req)) demo_req (demo_app 3)
     = (Inr [], snd (getPodList (snd (getAppInstance (demo_cluster 3 [] []) demo_req)) demo_req (demo_app 3)))"
    by (simp add: run_defs)
  have pass: "Reconcile (demo_cluster 3 [] []) demo_req = (Inr (), snd (Reconcile (demo_cluster 3 [] []) demo_req))"
    by (simp add: run_defs)
  have up: "[0..Size (Spec (demo_app 3)) - 1] = [0, 1, 2]"
    by (simp add: demo_app_def upto.simps)
  have k: "key_of (demo_app 3) = (''default'', ''app'')"
    by (simp add: demo_app_def key_of_def)
  from fresh_pass_creates_all [OF get list pass] get list pass show ?thesis
    unfolding up k by (simp add: demo_app_def format_d_def digits.simps digit_char_def)
qed

theorem fresh_pass_status_counterexample:
  "fst (Reconcile (demo_cluster 3 [] []) demo_req) = Inr () \<and>
   map Name (pods (snd (Reconcile (demo_cluster 3 [] []) demo_req)))
     = [''app-pod-0'', ''app-pod-1'', ''app-pod-2''] \<and>
   observedUnits (snd (Reconcile (demo_cluster 3 [] []) demo_req)) (''default'', ''app'') = Some [] \<and>
   map_option length (observedUnits (snd (Reconcile (demo_cluster 3 [] []) demo_req)) (''default'', ''app''))
     \<noteq> Some 3"
  by (simp add: run_defs)

text \<open>
  C2 (amended). A pass that finds the instance, observes more pods than the desired size
  and ends without error has deleted exactly the excess number of pods and created none.
  The status it has written is the list of the names it observed before deleting, so its
  length is the observed size, not the desired size.
\<close>

theorem shrink_pass_deletes_excess:
  assumes get: "getAppInstance c req = (Inr app, c1)"
    and list: "getPodList c1 req app = (Inr items, c2)"
    and more: "Size (Spec app) < int (length items)"
    and pass: "Reconcile c req = (Inr (), c')"
  shows "int (length (deleted_pods (events_since c c'))) = int (length items) - Size (Spec app) \<and>
     create_calls (events_since c c') = [] \<and>
     observedUnits c' (key_of app) = Some (map Name items) \<and>
     map_option length (observedUnits c' (key_of app)) = Some (length items)"
proof -
  from pass_success [OF get list pass] more
  have ev: "events_since c c' =
        [(GetCall (ReqNamespace req, ReqName req), None),
         (ListCall (ReqNamespace req) [(''app'', Name app)], None)] @
        map (\<lambda>p. (DeleteCall p, None)) (rev (drop (nat (Size (Spec app))) items)) @
        [(StatusUpdateCall (projected app items), None)]"
    and st: "observedUnits c' (key_of app) = Some (map Name items)"
    and sz: "0 \<le> Size (Spec app)"
    by auto
  have "deleted_pods (events_since c c') = rev (drop (nat (Size (Spec app))) items)"
    unfolding ev by (simp add: deleted_pods_def)
  moreover have "create_calls (events_since c c') = []"
    unfolding ev by simp
  ultimately show ?thesis
    using st sz more by simp
qed

theorem shrink_pass_deletes_excess_witness:
  "getAppInstance (demo_cluster 1 demo_pods []) demo_req
     = (Inr (demo_app 1), snd (getAppInstance (demo_cluster 1 demo_pods []) demo_req)) \<and>
   getPodList (snd (getAppInstance (demo_cluster 1 demo_pods []) demo_req)) demo_req (demo_app 1)
     = (Inr demo_pods,
        snd (getPodList (snd (getAppInstance (demo_cluster 1 demo_pods []) demo_req)) demo_req (demo_app 1))) \<and>
   Size (Spec (demo_app 1)) < int (length demo_pods) \<and>
   Reconcile (demo_cluster 1 demo_pods []) demo_req
     = (Inr (), snd (Reconcile (demo_cluster 1 demo_pods []) demo_req)) \<and>
   int (length (deleted_pods (events_since (demo_cluster 1 demo_pods [])
      (snd (Reconcile (demo_cluster 1 demo_pods []) demo_req))))) = 2 \<and>
   observedUnits (snd (Reconcile (demo_cluster 1 demo_pods []) demo_req)) (''default'', ''app'')
     = Some [''app-pod-0'', ''app-pod-1'', ''app-pod-2'']"
proof -
  have get: "getAppInstance (demo_cluster 1 demo_pods []) demo_req
     = (Inr (demo_app 1), snd (getAppInstance (demo_cluster 1 demo_pods []) demo_req))"
    by (simp add: run_defs)
  have list: "getPodList (snd (getAppInstance (demo_cluster 1 demo_pods []) demo_req)) demo_req (demo_app 1)
     = (Inr demo_pods,
        snd (getPodList (snd (getAppInstance (demo_cluster 1 demo_pods []) demo_req)) demo_req (demo_app 1)))"
    by (simp add: run_defs)
  have more: "Size (Spec (demo_app 1)) < int (length demo_pods)"
    by (simp add: demo_app_def demo_pods_def)
  have pass: "Reconcile (demo_cluster 1 demo_pods []) demo_req
     = (Inr (), snd (Reconcile (demo_cluster 1 demo_pods []) demo_req))"
    by (simp add: run_defs)
  have k: "key_of (demo_app 1) = (''default'', ''app'')"
    by (simp add: demo_app_def key_of_def)
  from shrink_pass_deletes_excess [OF get list more pass] get list more pass show ?thesis
    unfolding k by (simp add: demo_app_def demo_pods_def demo_pod_def)
qed

theorem shrink_pass_status_counterexample:
  "fst (Reconcile (demo_cluster 1 demo_pods []) demo_req) = Inr () \<and>
   map Name (pods (snd (Reconcile (demo_cluster 1 demo_pods []) demo_req))) = [''app-pod-0''] \<and>
   observedUnits (snd (Reconcile (demo_cluster 1 demo_pods []) demo_req)) (''default'', ''app'')
     = Some [''app-pod-0'', ''app-pod-1'', ''app-pod-2''] \<and>
   map_option length (observedUnits (snd (Reconcile (demo_cluster 1 demo_pods []) demo_req)) (''default'', ''app''))
     \<noteq> Some 1"
  by (simp add: run_defs)

text \<open>
  C3 (amended). The list a pass writes to the status is the list of names it read before
  the create and delete calls. When the scaling step ends without error the pass attempts
  exactly one status write, with that list, and when the store acknowledges it the stored
  status is that list. When the scaling step fails the pass returns the failure at once:
  it attempts no status write and leaves the stored instances as they were.
\<close>

theorem status_write_follows_scaling:
  assumes get: "getAppInstance c req = (Inr app, c1)"
    and list: "getPodList c1 req app = (Inr items, c2)"
    and scale: "scalePods c2 req app items = (r, c3)"
    and pass: "Reconcile c req = (r', c')"
  shows "items = filter (matches (ReqNamespace req) [(''app'', Name app)]) (pods c) \<and>
    (r = Inr () \<longrightarrow>
       status_writes (events_since c c') = [projected app items] \<and>
       (r' = Inr () \<longrightarrow> observedUnits c' (key_of app) = Some (map Name items))) \<and>
    (r \<noteq> Inr () \<longrightarrow>
       r' = r \<and> c' = c3 \<and> status_writes (events_since c c') = [] \<and> instances c' = instances c)"
proof (intro conjI impI)
  note rd = read_facts [OF get list]
  from rd show "items = filter (matches (ReqNamespace req) [(''app'', Name app)]) (pods c)"
    by simp
  from scalePods_trace [OF scale] obtain evs where
    evs: "trace c3 = trace c2 @ evs" "status_writes evs = []" "instances c3 = instances c2"
    by blast
  {
    assume ok: "r = Inr ()"
    with scale pass Reconcile_read [OF get list]
    have us: "updateStatus c3 app items = (r', c')" by simp
    from updateStatus_run [OF us] obtain out where
      "trace c' = trace c3 @ [(StatusUpdateCall (projected app items), out)]"
      by auto
    with evs rd show "status_writes (events_since c c') = [projected app items]"
      by (simp add: events_since_def)
    assume "r' = Inr ()"
    with updateStatus_run [OF us] show "observedUnits c' (key_of app) = Some (map Name items)"
      by (auto simp: observedUnits_def)
  }
  {
    assume bad: "r \<noteq> Inr ()"
    then obtain f where f: "r = Inl f" by (cases r) auto
    with scale pass Reconcile_read [OF get list] show eq: "r' = r" "c' = c3"
      by simp_all
    with evs rd show "status_writes (events_since c c') = []" "instances c' = instances c"
      by (simp_all add: events_since_def)
  }
qed

theorem status_write_follows_scaling_witness:
  "getAppInstance (demo_cluster 3 [] []) demo_req = (Inr (demo_app 3), demo_after_get 3 [] []) \<and>
   getPodList (demo_after_get 3 [] []) demo_req (demo_app 3) = (Inr [], demo_after_list 3 [] []) \<and>
   scalePods (demo_after_list 3 [] []) demo_req (demo_app 3) [] = (Inr (), demo_after_scale 3 [] []) \<and>
   Reconcile (demo_cluster 3 [] []) demo_req = (Inr (), snd (Reconcile (demo_cluster 3 [] []) demo_req)) \<and>
   status_writes (events_since (demo_cluster 3 [] []) (snd (Reconcile (demo_cluster 3 [] []) demo_req)))
     = [projected (demo_app 3) []] \<and>
   observedUnits (snd (Reconcile (demo_cluster 3 [] []) demo_req)) (key_of (demo_app 3)) = Some [] \<and>
   getAppInstance (demo_cluster 3 [] [None, None, None, Some Unavailable]) demo_req
     = (Inr (demo_app 3), demo_after_get 3 [] [None, None, None, Some Unavailable]) \<and>
   getPodList (demo_after_get 3 [] [None, None, None, Some Unavailable]) demo_req (demo_app 3)
     = (Inr [], demo_after_list 3 [] [None, None, None, Some Unavailable]) \<and>
   scalePods (demo_after_list 3 [] [None, None, None, Some Unavailable]) demo_req (demo_app 3) []
     = (Inl (Err Unavailable), demo_after_scale 3 [] [None, None, None, Some Unavailable]) \<and>
   Reconcile (demo_cluster 3 [] [None, None, None, Some Unavailable]) demo_req
     = (Inl (Err Unavailable), demo_after_scale 3 [] [None, None, None, Some Unavailable]) \<and>
   status_writes (events_since (demo_cluster 3 [] [None, None, None, Some Unavailable])
       (demo_after_scale 3 [] [None, None, None, Some Unavailable])) = []"
proof -
  have g0: "getAppInstance (demo_cluster 3 [] []) demo_req = (Inr (demo_app 3), demo_after_get 3 [] [])"
    by (simp add: run_defs)
  have l0: "getPodList (demo_after_get 3 [] []) demo_req (demo_app 3) = (Inr [], demo_after_list 3 [] [])"
    by (simp add: run_defs)
  have s0: "scalePods (demo_after_list 3 [] []) demo_req (demo_app 3) [] = (Inr (), demo_after_scale 3 [] [])"
    by (simp add: run_defs)
  have r0: "Reconcile (demo_cluster 3 [] []) demo_req = (Inr (), snd (Reconcile (demo_cluster 3 [] []) demo_req))"
    by (simp add: run_defs)
  have g1: "getAppInstance (demo_cluster 3 [] [None, None, None, Some Unavailable]) demo_req
     = (Inr (demo_app 3), demo_after_get 3 [] [None, None, None, Some Unavailable])"
    by (simp add: run_defs)
  have l1: "getPodList (demo_after_get 3 [] [None, None, None, Some Unavailable]) demo_req (demo_app 3)
     = (Inr [], demo_after_list 3 [] [None, None, None, Some Unavailable])"
    by (simp add: run_defs)
  have s1: "scalePods (demo_after_list 3 [] [None, None, None, Some Unavailable]) demo_req (demo_app 3) []
     = (Inl (Err Unavailable), demo_after_scale 3 [] [None, None, None, Some Unavailable])"
    by (simp add: run_defs)
  have r1: "Reconcile (demo_cluster 3 [] [None, None, None, Some Unavailable]) demo_req
     = (Inl (Err Unavailable), demo_after_scale 3 [] [None, None, None, Some Unavailable])"
    by (simp add: run_defs)
  from status_write_follows_scaling [OF g0 l0 s0 r0]
  have a: "status_writes (events_since (demo_cluster 3 [] []) (snd (Reconcile (demo_cluster 3 [] []) demo_req)))
     = [projected (demo_app 3) []]"
    "observedUnits (snd (Reconcile (demo_cluster 3 [] []) demo_req)) (key_of (demo_app 3)) = Some []"
    by simp_all
  from status_write_follows_scaling [OF g1 l1 s1 r1]
  have b: "status_writes (events_since (demo_cluster 3 [] [None, None, None, Some Unavailable])
       (demo_after_scale 3 [] [None, None, None, Some Unavailable])) = []"
    by simp
  from g0 l0 s0 r0 a g1 l1 s1 r1 b show ?thesis
    by (intro conjI)
qed

theorem status_write_skipped_counterexample:
  "fst (Reconcile (demo_cluster 3 [] [None, None, None, Some Unavailable]) demo_req) = Inl (Err Unavailable) \<and>
   map Name (pods (snd (Reconcile (demo_cluster 3 [] [None, None, None, Some Unavailable]) demo_req)))
     = [''app-pod-0''] \<and>
   create_calls (trace (snd (Reconcile (demo_cluster 3 [] [None, None, None, Some Unavailable]) demo_req)))
     = [newPod demo_req (demo_app 3) 0, newPod demo_req (demo_app 3) 1] \<and>
   status_writes (trace (snd (Reconcile (demo_cluster 3 [] [None, None, None, Some Unavailable]) demo_req)))
     = [] \<and>
   observedUnits (snd (Reconcile (demo_cluster 3 [] [None, None, None, Some Unavailable]) demo_req))
     (''default'', ''app'') = Some []"
  by (simp add: run_defs)

text \<open>
  C4. The scaling step depends on the two counts only through their comparison. When
  the observed count is below the desired size it issues no deletion and, ending without
  error, has created exactly the difference; when it is above, it issues no creation and,
  ending without error, has deleted exactly the difference; when the counts are equal it
  does nothing.
\<close>

theorem diff_decision:
  assumes run: "scalePods c req app items = (r, c')"
  shows "(int (length items) < Size (Spec app) \<longrightarrow>
        delete_calls (events_since c c') = [] \<and>
        (r = Inr () \<longrightarrow>
           int (length (created_pods (events_since c c'))) = Size (Spec app) - int (length items))) \<and>
     (Size (Spec app) < int (length items) \<longrightarrow>
        create_calls (events_since c c') = [] \<and>
        (r = Inr () \<longrightarrow>
           int (length (deleted_pods (events_since c c'))) = int (length items) - Size (Spec app))) \<and>
     (int (length items) = Size (Spec app) \<longrightarrow> r = Inr () \<and> c' = c)"
proof (intro conjI impI)
  assume lt: "int (length items) < Size (Spec app)"
  from scalePods_grow [OF run lt] obtain j tl where
    tr: "trace c' = trace c @
         map (\<lambda>n. (CreateCall (newPod req app n), None)) [int (length items)..j - 1] @ tl"
    and cases: "(r = Inr () \<and> tl = [] \<and> j = Size (Spec app)) \<or>
        (\<exists>e. r = Inl (Err e) \<and> j < Size (Spec app)
            \<and> tl = [(CreateCall (newPod req app j), Some e)])"
    by blast
  note ev = events_sinceI [OF tr]
  from cases show "delete_calls (events_since c c') = []"
    unfolding ev by auto
  assume "r = Inr ()"
  with cases lt show "int (length (created_pods (events_since c c'))) = Size (Spec app) - int (length items)"
    unfolding ev by (auto simp: created_pods_def)
next
  assume gt: "Size (Spec app) < int (length items)"
  with run have dp: "deletePods c items (int (length items)) (Size (Spec app)) = (r, c')"
    by (simp add: scalePods_def)
  from deletePods_attempts [OF dp] obtain k where k: "k \<le> length items"
    "create_calls (events_since c c') = []"
    "(r = Inr () \<and> 0 \<le> Size (Spec app) \<and> int k = min (int (length items)) (Size (Spec app))
         \<and> deleted_pods (events_since c c') = rev (drop k items)) \<or>
      (\<exists>e. r = Inl (Err e) \<and> Size (Spec app) \<le> int k) \<or>
      (r = Inl PanicIndexOutOfRange \<and> Size (Spec app) < 0 \<and> k = 0)"
    by blast
  from k(2) show "create_calls (events_since c c') = []" .
  assume "r = Inr ()"
  with k(3) gt have "int k = Size (Spec app)" "deleted_pods (events_since c c') = rev (drop k items)"
    by (auto simp: min_def)
  with k(1) show "int (length (deleted_pods (events_since c c'))) = int (length items) - Size (Spec app)"
    by simp
next
  assume eq: "int (length items) = Size (Spec app)"
  with run show "r = Inr ()" "c' = c"
    by (simp_all add: scalePods_equal)
qed

theorem diff_decision_witness:
  "scalePods (demo_cluster 3 [] []) demo_req (demo_app 3) []
     = (Inr (), snd (scalePods (demo_cluster 3 [] []) demo_req (demo_app 3) [])) \<and>
   int (length ([] :: Pod list)) < Size (Spec (demo_app 3)) \<and>
   int (length (created_pods (events_since (demo_cluster 3 [] [])
       (snd (scalePods (demo_cluster 3 [] []) demo_req (demo_app 3) []))))) = 3 \<and>
   delete_calls (events_since (demo_cluster 3 [] [])
       (snd (scalePods (demo_cluster 3 [] []) demo_req (demo_app 3) []))) = [] \<and>
   scalePods (demo_cluster 1 demo_pods []) demo_req (demo_app 1) demo_pods
     = (Inr (), snd (scalePods (demo_cluster 1 demo_pods []) demo_req (demo_app 1) demo_pods)) \<and>
   Size (Spec (demo_app 1)) < int (length demo_pods) \<and>
   int (length (deleted_pods (events_since (demo_cluster 1 demo_pods [])
       (snd (scalePods (demo_cluster 1 demo_pods []) demo_req (demo_app 1) demo_pods))))) = 2 \<and>
   create_calls (events_since (demo_cluster 1 demo_pods [])
       (snd (scalePods (demo_cluster 1 demo_pods []) demo_req (demo_app 1) demo_pods))) = [] \<and>
   int (length demo_pods) = Size (Spec (demo_app 3)) \<and>
   scalePods (demo_cluster 3 demo_pods []) demo_req (demo_app 3) demo_pods
     = (Inr (), demo_cluster 3 demo_pods [])"
proof -
  have grow: "scalePods (demo_cluster 3 [] []) demo_req (demo_app 3) []
     = (Inr (), snd (scalePods (demo_cluster 3 [] []) demo_req (demo_app 3) []))"
    by (simp add: run_defs)
  have lt: "int (length ([] :: Pod list)) < Size (Spec (demo_app 3))"
    by (simp add: demo_app_def)
  have shrink: "scalePods (demo_cluster 1 demo_pods []) demo_req (demo_app 1) demo_pods
     = (Inr (), snd (scalePods (demo_cluster 1 demo_pods []) demo_req (demo_app 1) demo_pods))"
    by (simp add: run_defs)
  have gt: "Size (Spec (demo_app 1)) < int (length demo_pods)"
    by (simp add: demo_app_def demo_pods_def)
  have eq: "int (length demo_pods) = Size (Spec (demo_app 3))"
    by (simp add: demo_app_def demo_pods_def)
  have same: "scalePods (demo_cluster 3 demo_pods []) demo_req (demo_app 3) demo_pods
     = (fst (scalePods (demo_cluster 3 demo_pods []) demo_req (demo_app 3) demo_pods),
        snd (scalePods (demo_cluster 3 demo_pods []) demo_req (demo_app 3) demo_pods))"
    by simp
  from diff_decision [OF grow] diff_decision [OF shrink] diff_decision [OF same] grow lt shrink gt eq
  show ?thesis
    by (simp add: demo_app_def demo_pods_def prod_eq_iff)
qed

text \<open>
  C5. When a create or delete of the scaling step fails, the pass returns that failure
  and stops right after the failed call: the calls before it were all acknowledged, the
  remaining items of the batch are not attempted, and the store keeps the pods created
  (or stays without the pods deleted) before the failure.
\<close>

theorem partial_batch_failure:
  assumes get: "getAppInstance c req = (Inr app, c1)"
    and list: "getPodList c1 req app = (Inr items, c2)"
    and fail: "scalePods c2 req app items = (Inl (Err e), c3)"
  shows "Reconcile c req = (Inl (Err e), c3) \<and>
    (int (length items) < Size (Spec app) \<longrightarrow>
       (\<exists>j. int (length items) \<le> j \<and> j < Size (Spec app) \<and>
          events_since c c3 =
            [(GetCall (ReqNamespace req, ReqName req), None),
             (ListCall (ReqNamespace req) [(''app'', Name app)], None)] @
            map (\<lambda>n. (CreateCall (newPod req app n), None)) [int (length items)..j - 1] @
            [(CreateCall (newPod req app j), Some e)] \<and>
          pods c3 = pods c @ map (newPod req app) [int (length items)..j - 1])) \<and>
    (Size (Spec app) < int (length items) \<longrightarrow>
       (\<exists>k. nat (Size (Spec app)) < k \<and> k \<le> length items \<and>
          events_since c c3 =
            [(GetCall (ReqNamespace req, ReqName req), None),
             (ListCall (ReqNamespace req) [(''app'', Name app)], None)] @
            map (\<lambda>p. (DeleteCall p, None)) (rev (drop k items)) @
            [(DeleteCall (items ! (k - 1)), Some e)] \<and>
          pods c3 = filter (\<lambda>q. key_of q \<notin> key_of ` set (drop k items)) (pods c))) \<and>
    int (length items) \<noteq> Size (Spec app)"
proof (intro conjI impI)
  note rd = read_facts [OF get list]
  from fail Reconcile_read [OF get list] show "Reconcile c req = (Inl (Err e), c3)"
    by simp
  from fail show "int (length items) \<noteq> Size (Spec app)"
    by (auto simp: scalePods_equal)
  {
    assume lt: "int (length items) < Size (Spec app)"
    from scalePods_grow [OF fail lt] obtain j where j: "int (length items) \<le> j" "j < Size (Spec app)"
      "pods c3 = pods c2 @ map (newPod req app) [int (length items)..j - 1]"
      "trace c3 = trace c2 @
         map (\<lambda>n. (CreateCall (newPod req app n), None)) [int (length items)..j - 1] @
         [(CreateCall (newPod req app j), Some e)]"
      by auto
    from j rd show "\<exists>j. int (length items) \<le> j \<and> j < Size (Spec app) \<and>
          events_since c c3 =
            [(GetCall (ReqNamespace req, ReqName req), None),
             (ListCall (ReqNamespace req) [(''app'', Name app)], None)] @
            map (\<lambda>n. (CreateCall (newPod req app n), None)) [int (length items)..j - 1] @
            [(CreateCall (newPod req app j), Some e)] \<and>
          pods c3 = pods c @ map (newPod req app) [int (length items)..j - 1]"
      by (intro exI [of _ j]) (simp add: events_since_def)
  }
  {
    assume gt: "Size (Spec app) < int (length items)"
    from scalePods_shrink [OF fail gt] obtain k where k: "k \<le> length items"
      "Size (Spec app) < int k" "0 < k"
      "pods c3 = filter (\<lambda>q. key_of q \<notin> key_of ` set (drop k items)) (pods c2)"
      "trace c3 = trace c2 @ map (\<lambda>p. (DeleteCall p, None)) (rev (drop k items)) @
         [(DeleteCall (items ! (k - 1)), Some e)]"
      by auto
    from k(2,3) have "nat (Size (Spec app)) < k" by linarith
    with k rd show "\<exists>k. nat (Size (Spec app)) < k \<and> k \<le> length items \<and>
          events_since c c3 =
            [(GetCall (ReqNamespace req, ReqName req), None),
             (ListCall (ReqNamespace req) [(''app'', Name app)], None)] @
            map (\<lambda>p. (DeleteCall p, None)) (rev (drop k items)) @
            [(DeleteCall (items ! (k - 1)), Some e)] \<and>
          pods c3 = filter (\<lambda>q. key_of q \<notin> key_of ` set (drop k items)) (pods c)"
      by (intro exI [of _ k]) (simp add: events_since_def)
  }
qed

theorem partial_batch_failure_witness:
  "getAppInstance (demo_cluster 3 [] [None, None, None, Some Unavailable]) demo_req
     = (Inr (demo_app 3), demo_after_get 3 [] [None, None, None, Some Unavailable]) \<and>
   getPodList (demo_after_get 3 [] [None, None, None, Some Unavailable]) demo_req (demo_app 3)
     = (Inr [], demo_after_list 3 [] [None, None, None, Some Unavailable]) \<and>
   scalePods (demo_after_list 3 [] [None, None, None, Some Unavailable]) demo_req (demo_app 3) []
     = (Inl (Err Unavailable), demo_after_scale 3 [] [None, None, None, Some Unavailable]) \<and>
   Reconcile (demo_cluster 3 [] [None, None, None, Some Unavailable]) demo_req
     = (Inl (Err Unavailable), demo_after_scale 3 [] [None, None, None, Some Unavailable]) \<and>
   map Name (pods (demo_after_scale 3 [] [None, None, None, Some Unavailable])) = [''app-pod-0''] \<and>
   getAppInstance (demo_cluster 1 demo_pods [None, None, None, Some Unavailable]) demo_req
     = (Inr (demo_app 1), demo_after_get 1 demo_pods [None, None, None, Some Unavailable]) \<and>
   getPodList (demo_after_get 1 demo_pods [None, None, None, Some Unavailable]) demo_req (demo_app 1)
     = (Inr demo_pods, demo_after_list 1 demo_pods [None, None, None, Some Unavailable]) \<and>
   scalePods (demo_after_list 1 demo_pods [None, None, None, Some Unavailable]) demo_req (demo_app 1) demo_pods
     = (Inl (Err Unavailable), demo_after_scale 1 demo_pods [None, None, None, Some Unavailable]) \<and>
   Reconcile (demo_cluster 1 demo_pods [None, None, None, Some Unavailable]) demo_req
     = (Inl (Err Unavailable), demo_after_scale 1 demo_pods [None, None, None, Some Unavailable]) \<and>
   map Name (pods (demo_after_scale 1 demo_pods [None, None, None, Some Unavailable]))
     = [''app-pod-0'', ''app-pod-1'']"
proof -
  have g1: "getAppInstance (demo_cluster 3 [] [None, None, None, Some Unavailable]) demo_req
     = (Inr (demo_app 3), demo_after_get 3 [] [None, None, None, Some Unavailable])"
    by (simp add: run_defs)
  have l1: "getPodList (demo_after_get 3 [] [None, None, None, Some Unavailable]) demo_req (demo_app 3)
     = (Inr [], demo_after_list 3 [] [None, None, None, Some Unavailable])"
    by (simp add: run_defs)
  have s1: "scalePods (demo_after_list 3 [] [None, None, None, Some Unavailable]) demo_req (demo_app 3) []
     = (Inl (Err Unavailable), demo_after_scale 3 [] [None, None, None, Some Unavailable])"
    by (simp add: run_defs)
  have p1: "map Name (pods (demo_after_scale 3 [] [None, None, None, Some Unavailable])) = [''app-pod-0'']"
    by (simp add: run_defs)
  have g2: "getAppInstance (demo_cluster 1 demo_pods [None, None, None, Some Unavailable]) demo_req
     = (Inr (demo_app 1), demo_after_get 1 demo_pods [None, None, None, Some Unavailable])"
    by (simp add: run_defs)
  have l2: "getPodList (demo_after_get 1 demo_pods [None, None, None, Some Unavailable]) demo_req (demo_app 1)
     = (Inr demo_pods, demo_after_list 1 demo_pods [None, None, None, Some Unavailable])"
    by (simp add: run_defs)
  have s2: "scalePods (demo_after_list 1 demo_pods [None, None, None, Some Unavailable]) demo_req (demo_app 1) demo_pods
     = (Inl (Err Unavailable), demo_after_scale 1 demo_pods [None, None, None, Some Unavailable])"
    by (simp add: run_defs)
  have p2: "map Name (pods (demo_after_scale 1 demo_pods [None, None, None, Some Unavailable]))
     = [''app-pod-0'', ''app-pod-1'']"
    by (simp add: run_defs)
  from partial_batch_failure [OF g1 l1 s1] partial_batch_failure [OF g2 l2 s2]
  have "Reconcile (demo_cluster 3 [] [None, None, None, Some Unavailable]) demo_req
     = (Inl (Err Unavailable), demo_after_scale 3 [] [None, None, None, Some Unavailable])"
    "Reconcile (demo_cluster 1 demo_pods [None, None, None, Some Unavailable]) demo_req
     = (Inl (Err Unavailable), demo_after_scale 1 demo_pods [None, None, None, Some Unavailable])"
    by blast+
  with g1 l1 s1 p1 g2 l2 s2 p2 show ?thesis
    by (intro conjI)
qed

text \<open>
  C6 (amended). Let a pass towards \<open>Size\<close> observe \<open>M\<close> pods and create only \<open>k\<close> pods
  with \<open>M + k < Size\<close>. Then that pass has failed and the pods it created carry the indices
  \<open>M\<close> to \<open>M + k - 1\<close>. The following pass on the store as it was left, when the store
  fails none of its calls for an outside reason and none of the names with the indices
  \<open>M + k\<close> to \<open>Size - 1\<close> is taken, ends without error and creates exactly the
  \<open>Size - M - k\<close> pods with these indices. The names created by the two passes are
  pairwise distinct, the store holds the old pods followed by the created ones, and pod
  keys that were unique before are unique after. The names are derived from the observed
  count, so nothing is said for a store in which one of them is taken.
\<close>

theorem growth_resumes_after_partial_failure:
  fixes M k :: int and items :: "Pod list" and c c' :: cluster
  defines "M \<equiv> int (length items)"
    and "k \<equiv> int (length (created_pods (events_since c c')))"
  assumes get: "getAppInstance c req = (Inr app, c1)"
    and list: "getPodList c1 req app = (Inr items, c2)"
    and first: "Reconcile c req = (r1, c')"
    and short: "M + k < Size (Spec app)"
    and own: "key_of app = (ReqNamespace req, ReqName req)"
    and quiet: "faults c' = []"
    and free: "set (map (\<lambda>i. (ReqNamespace req, Name app @ ''-pod-'' @ format_d i))
                    [M + k..Size (Spec app) - 1])
               \<inter> set (map key_of (pods c')) = {}"
    and second: "Reconcile c' req = (r2, c'')"
  shows "r1 \<noteq> Inr () \<and> r2 = Inr () \<and>
    map Name (created_pods (events_since c c'))
      = map (\<lambda>i. Name app @ ''-pod-'' @ format_d i) [M..M + k - 1] \<and>
    map Name (created_pods (events_since c' c''))
      = map (\<lambda>i. Name app @ ''-pod-'' @ format_d i) [M + k..Size (Spec app) - 1] \<and>
    int (length (created_pods (events_since c' c''))) = Size (Spec app) - M - k \<and>
    distinct (map Name (created_pods (events_since c c') @ created_pods (events_since c' c''))) \<and>
    pods c'' = pods c @ created_pods (events_since c c') @ created_pods (events_since c' c'') \<and>
    (wf_store c \<longrightarrow> wf_store c'')"
proof -
  let ?N = "Size (Spec app)"
  let ?m = "matches (ReqNamespace req) [(''app'', Name app)]"
  note rd = read_facts [OF get list]
  have k0: "0 \<le> k" by (simp add: k_def)
  have M0: "0 \<le> M" by (simp add: M_def)
  from short k0 have grow: "int (length items) < ?N" by (simp add: M_def)
  \<comment> \<open>The first pass stopped inside the scaling step.\<close>
  obtain x c3 where sc: "scalePods c2 req app items = (x, c3)"
    by (cases "scalePods c2 req app items")
  from scalePods_grow [OF sc grow] obtain j tl where j: "M \<le> j"
    "instances c3 = instances c2"
    "pods c3 = pods c2 @ map (newPod req app) [M..j - 1]"
    "trace c3 = trace c2 @ map (\<lambda>n. (CreateCall (newPod req app n), None)) [M..j - 1] @ tl"
    "(x = Inr () \<and> tl = [] \<and> j = ?N) \<or>
     (\<exists>e. x = Inl (Err e) \<and> j < ?N \<and> tl = [(CreateCall (newPod req app j), Some e)])"
    unfolding M_def by blast
  have failed: "\<exists>e. x = Inl (Err e) \<and> j < ?N \<and> tl = [(CreateCall (newPod req app j), Some e)]"
  proof (rule ccontr)
    assume "\<not> ?thesis"
    with j(5) have ok: "x = Inr ()" "tl = []" "j = ?N" by auto
    with sc first Reconcile_read [OF get list] have us: "updateStatus c3 app items = (r1, c')"
      by simp
    from updateStatus_run [OF us] obtain out where
      "trace c' = trace c3 @ [(StatusUpdateCall (projected app items), out)]"
      by auto
    with j(4) ok rd have "created_pods (events_since c c') = map (newPod req app) [M..?N - 1]"
      by (simp add: events_since_def created_pods_def acked_def)
    with grow have "k = ?N - M" by (simp add: k_def M_def)
    with short show False by simp
  qed
  then obtain e where e: "x = Inl (Err e)" "j < ?N" "tl = [(CreateCall (newPod req app j), Some e)]"
    by blast
  with sc first Reconcile_read [OF get list] have c': "c' = c3"
    by simp
  from j(4) e(3) rd c' have cr1: "created_pods (events_since c c') = map (newPod req app) [M..j - 1]"
    by (simp add: events_since_def created_pods_def)
  with j(1) have jk: "j = M + k" by (simp add: k_def)
  \<comment> \<open>The second pass reads the same instance and the pods of the first pass.\<close>
  from c' j(2) rd have inst: "instances c' (ReqNamespace req, ReqName req) = Some app" by simp
  from getAppInstance_quiet [OF quiet inst] obtain d1 where
    get2: "getAppInstance c' req = (Inr app, d1)" and q1: "faults d1 = []"
    by blast
  from getPodList_quiet [OF q1] obtain items2 d2 where
    list2: "getPodList d1 req app = (Inr items2, d2)" and q2: "faults d2 = []"
    by blast
  note rd2 = read_facts [OF get2 list2]
  have "items2 = filter ?m (pods c')" using rd2 by simp
  also have "\<dots> = items @ filter ?m (map (newPod req app) [M..j - 1])"
    unfolding c' j(3) using rd by simp
  also have "filter ?m (map (newPod req app) [M..j - 1]) = map (newPod req app) [M..j - 1]"
    by (intro filter_True) auto
  finally have len2: "int (length items2) = M + k"
    using j(1) jk by (simp add: M_def)
  \<comment> \<open>Its creations are all acknowledged, and so is its status write.\<close>
  have "(\<lambda>n. key_of (newPod req app n)) = (\<lambda>i. (ReqNamespace req, Name app @ ''-pod-'' @ format_d i))"
    by (simp add: key_of_newPod)
  with free rd2 have free2: "set (map (\<lambda>n. key_of (newPod req app n)) [M + k..?N - 1])
      \<inter> set (map key_of (pods d2)) = {}"
    by simp
  from k0 M0 have nn: "0 \<le> M + k" by simp
  from createPods_loop_quiet [OF q2 nn free2] obtain d3 where
    loop: "createPods_loop d2 req app (M + k) ?N = (Inr (), d3)" and q3: "faults d3 = []"
    by blast
  with len2 short have sc2: "scalePods d2 req app items2 = (Inr (), d3)"
    by (simp add: scalePods_def createPods_def)
  from scalePods_trace [OF sc2] rd2 inst own have "instances d3 (key_of app) = Some app"
    by auto
  from updateStatus_quiet [OF q3 this] have "fst (updateStatus d3 app items2) = Inr ()" .
  with sc2 second Reconcile_read [OF get2 list2] have r2: "r2 = Inr ()"
    by (cases "updateStatus d3 app items2") auto
  with second have second': "Reconcile c' req = (Inr (), c'')" by simp
  from growth_resumes_run [OF get list first short [unfolded M_def k_def] get2 second'] r2
  show ?thesis
    unfolding M_def k_def by blast
qed

theorem growth_resumes_after_partial_failure_witness:
  "getAppInstance (demo_cluster 3 [] [None, None, None, Some Unavailable]) demo_req
     = (Inr (demo_app 3), demo_after_get 3 [] [None, None, None, Some Unavailable]) \<and>
   getPodList (demo_after_get 3 [] [None, None, None, Some Unavailable]) demo_req (demo_app 3)
     = (Inr [], demo_after_list 3 [] [None, None, None, Some Unavailable]) \<and>
   Reconcile (demo_cluster 3 [] [None, None, None, Some Unavailable]) demo_req
     = (Inl (Err Unavailable), demo_after_scale 3 [] [None, None, None, Some Unavailable]) \<and>
   int (length ([] :: Pod list)) +
     int (length (created_pods (events_since (demo_cluster 3 [] [None, None, None, Some Unavailable])
        (demo_after_scale 3 [] [None, None, None, Some Unavailable]))))
     < Size (Spec (demo_app 3)) \<and>
   key_of (demo_app 3) = (ReqNamespace demo_req, ReqName demo_req) \<and>
   faults (demo_after_scale 3 [] [None, None, None, Some Unavailable]) = [] \<and>
   set (map (\<lambda>i. (ReqNamespace demo_req, Name (demo_app 3) @ ''-pod-'' @ format_d i))
          [int (length ([] :: Pod list)) +
           int (length (created_pods (events_since (demo_cluster 3 [] [None, None, None, Some Unavailable])
        (demo_after_scale 3 [] [None, None, None, Some Unavailable]))))
           ..Size (Spec (demo_app 3)) - 1])
     \<inter> set (map key_of (pods (demo_after_scale 3 [] [None, None, None, Some Unavailable]))) = {} \<and>
   Reconcile (demo_after_scale 3 [] [None, None, None, Some Unavailable]) demo_req
     = (fst (Reconcile (demo_after_scale 3 [] [None, None, None, Some Unavailable]) demo_req),
        snd (Reconcile (demo_after_scale 3 [] [None, None, None, Some Unavailable]) demo_req)) \<and>
   fst (Reconcile (demo_after_scale 3 [] [None, None, None, Some Unavailable]) demo_req) = Inr () \<and>
   map Name (created_pods (events_since (demo_cluster 3 [] [None, None, None, Some Unavailable])
      (demo_after_scale 3 [] [None, None, None, Some Unavailable]))) = [''app-pod-0''] \<and>
   map Name (created_pods (events_since (demo_after_scale 3 [] [None, None, None, Some Unavailable])
      (snd (Reconcile (demo_after_scale 3 [] [None, None, None, Some Unavailable]) demo_req))))
     = [''app-pod-1'', ''app-pod-2''] \<and>
   map Name (pods (snd (Reconcile (demo_after_scale 3 [] [None, None, None, Some Unavailable]) demo_req)))
     = [''app-pod-0'', ''app-pod-1'', ''app-pod-2'']"
proof -
  have kval: "int (length (created_pods (events_since (demo_cluster 3 [] [None, None, None, Some Unavailable])
        (demo_after_scale 3 [] [None, None, None, Some Unavailable])))) = 1"
    by (simp add: run_defs)
  have up: "[0..0] = [0::int]" "[1..2] = [1, 2::int]"
    by (simp_all add: upto.simps)
  have ps: "map key_of (pods (demo_after_scale 3 [] [None, None, None, Some Unavailable])) = [(''default'', ''app-pod-0'')]"
    by (simp add: run_defs)
  have get: "getAppInstance (demo_cluster 3 [] [None, None, None, Some Unavailable]) demo_req
     = (Inr (demo_app 3), demo_after_get 3 [] [None, None, None, Some Unavailable])"
    by (simp add: run_defs)
  have list: "getPodList (demo_after_get 3 [] [None, None, None, Some Unavailable]) demo_req (demo_app 3)
     = (Inr [], demo_after_list 3 [] [None, None, None, Some Unavailable])"
    by (simp add: run_defs)
  have first: "Reconcile (demo_cluster 3 [] [None, None, None, Some Unavailable]) demo_req
     = (Inl (Err Unavailable), demo_after_scale 3 [] [None, None, None, Some Unavailable])"
    by (simp add: run_defs)
  have short: "int (length ([] :: Pod list)) +
     int (length (created_pods (events_since (demo_cluster 3 [] [None, None, None, Some Unavailable])
        (demo_after_scale 3 [] [None, None, None, Some Unavailable]))))
     < Size (Spec (demo_app 3))"
    by (simp add: run_defs)
  have own: "key_of (demo_app 3) = (ReqNamespace demo_req, ReqName demo_req)"
    by (simp add: key_of_def demo_app_def demo_req_def)
  have quiet: "faults (demo_after_scale 3 [] [None, None, None, Some Unavailable]) = []"
    by (simp add: run_defs)
  have free: "set (map (\<lambda>i. (ReqNamespace demo_req, Name (demo_app 3) @ ''-pod-'' @ format_d i))
          [int (length ([] :: Pod list)) +
           int (length (created_pods (events_since (demo_cluster 3 [] [None, None, None, Some Unavailable])
        (demo_after_scale 3 [] [None, None, None, Some Unavailable]))))
           ..Size (Spec (demo_app 3)) - 1])
     \<inter> set (map key_of (pods (demo_after_scale 3 [] [None, None, None, Some Unavailable]))) = {}"
    unfolding kval ps
    by (simp add: up demo_app_def demo_req_def format_d_def digits.simps digit_char_def)
  have second: "Reconcile (demo_after_scale 3 [] [None, None, None, Some Unavailable]) demo_req
     = (fst (Reconcile (demo_after_scale 3 [] [None, None, None, Some Unavailable]) demo_req),
        snd (Reconcile (demo_after_scale 3 [] [None, None, None, Some Unavailable]) demo_req))"
    by simp
  note inst = growth_resumes_after_partial_failure [OF get list first short own quiet free second]
  from inst have r2: "fst (Reconcile (demo_after_scale 3 [] [None, None, None, Some Unavailable]) demo_req) = Inr ()"
    by blast
  from inst have names: "map Name (created_pods (events_since (demo_cluster 3 [] [None, None, None, Some Unavailable])
      (demo_after_scale 3 [] [None, None, None, Some Unavailable]))) = [''app-pod-0'']"
    "map Name (created_pods (events_since (demo_after_scale 3 [] [None, None, None, Some Unavailable])
      (snd (Reconcile (demo_after_scale 3 [] [None, None, None, Some Unavailable]) demo_req))))
     = [''app-pod-1'', ''app-pod-2'']"
    unfolding kval by (simp_all add: demo_app_def up format_d_def digits.simps digit_char_def)
  from inst have "pods (snd (Reconcile (demo_after_scale 3 [] [None, None, None, Some Unavailable]) demo_req))
      = pods (demo_cluster 3 [] [None, None, None, Some Unavailable]) @
        created_pods (events_since (demo_cluster 3 [] [None, None, None, Some Unavailable])
          (demo_after_scale 3 [] [None, None, None, Some Unavailable])) @
        created_pods (events_since (demo_after_scale 3 [] [None, None, None, Some Unavailable])
          (snd (Reconcile (demo_after_scale 3 [] [None, None, None, Some Unavailable]) demo_req)))"
    by blast
  then have "map Name (pods (snd (Reconcile (demo_after_scale 3 [] [None, None, None, Some Unavailable]) demo_req)))
      = map Name (pods (demo_cluster 3 [] [None, None, None, Some Unavailable])) @
        map Name (created_pods (events_since (demo_cluster 3 [] [None, None, None, Some Unavailable])
          (demo_after_scale 3 [] [None, None, None, Some Unavailable]))) @
        map Name (created_pods (events_since (demo_after_scale 3 [] [None, None, None, Some Unavailable])
          (snd (Reconcile (demo_after_scale 3 [] [None, None, None, Some Unavailable]) demo_req))))"
    by simp
  then have total: "map Name (pods (snd (Reconcile (demo_after_scale 3 [] [None, None, None, Some Unavailable]) demo_req)))
     = [''app-pod-0'', ''app-pod-1'', ''app-pod-2'']"
    unfolding names by (simp add: demo_cluster_def)
  from get list first short own quiet free second r2 names total show ?thesis
    by (intro conjI)
qed

theorem growth_blocked_by_taken_name_counterexample:
  "wf_store (demo_cluster 4 [demo_pod ''app-pod-2''] []) \<and>
   length (filter (matches ''default'' [(''app'', ''app'')]) (pods (demo_cluster 4 [demo_pod ''app-pod-2''] []))) = 1 \<and>
   fst (Reconcile (demo_cluster 4 [demo_pod ''app-pod-2''] []) demo_req) = Inl (Err AlreadyExists) \<and>
   map Name (created_pods (events_since (demo_cluster 4 [demo_pod ''app-pod-2''] [])
      (snd (Reconcile (demo_cluster 4 [demo_pod ''app-pod-2''] []) demo_req)))) = [''app-pod-1''] \<and>
   faults (snd (Reconcile (demo_cluster 4 [demo_pod ''app-pod-2''] []) demo_req)) = [] \<and>
   fst (Reconcile (snd (Reconcile (demo_cluster 4 [demo_pod ''app-pod-2''] []) demo_req)) demo_req)
     = Inl (Err AlreadyExists) \<and>
   created_pods (events_since (snd (Reconcile (demo_cluster 4 [demo_pod ''app-pod-2''] []) demo_req))
      (snd (Reconcile (snd (Reconcile (demo_cluster 4 [demo_pod ''app-pod-2''] []) demo_req)) demo_req))) = [] \<and>
   length (created_pods (events_since (snd (Reconcile (demo_cluster 4 [demo_pod ''app-pod-2''] []) demo_req))
      (snd (Reconcile (snd (Reconcile (demo_cluster 4 [demo_pod ''app-pod-2''] []) demo_req)) demo_req)))) \<noteq> 2 \<and>
   map Name (pods (snd (Reconcile (snd (Reconcile (demo_cluster 4 [demo_pod ''app-pod-2''] []) demo_req)) demo_req)))
     = [''app-pod-2'', ''app-pod-1'']"
  by (simp add: run_defs)

text \<open>
  C7. After a pass that found the instance and ended without error on a store with
  unique pod keys, the next pass on the store as that pass left it issues no create and no
  delete call, whatever the outcome of its own calls.
\<close>

theorem second_pass_is_noop:
  assumes wf: "wf_store c"
    and get: "getAppInstance c req = (Inr app, c1)"
    and pass: "Reconcile c req = (Inr (), c')"
    and again: "Reconcile c' req = (r2, c'')"
  shows "create_calls (events_since c' c'') = [] \<and> delete_calls (events_since c' c'') = []"
proof -
  from Reconcile_success_list [OF get pass] obtain items c2 where
    list: "getPodList c1 req app = (Inr items, c2)" by blast
  note conv = pass_converges [OF wf get list pass]
  obtain x d1 where get2: "getAppInstance c' req = (x, d1)"
    by (cases "getAppInstance c' req")
  show ?thesis
  proof (cases x)
    case (Inl e)
    from getAppInstance_run [OF get2] Inl
    have tr: "trace d1 = trace c' @ [(GetCall (ReqNamespace req, ReqName req), Some e)]"
      by auto
    from again get2 Inl have "c'' = d1"
      by (auto simp: Reconcile_def split: if_splits)
    with tr show ?thesis by (simp add: events_since_def)
  next
    case (Inr app2)
    with get2 have get2': "getAppInstance c' req = (Inr app2, d1)" by simp
    from getAppInstance_run [OF get2'] have g: "pods d1 = pods c'"
      "instances c' (ReqNamespace req, ReqName req) = Some app2"
      "trace d1 = trace c' @ [(GetCall (ReqNamespace req, ReqName req), None)]"
      by auto
    from pass_keeps_instance [OF get list pass g(2)]
    have same: "Spec app2 = Spec app" "Name app2 = Name app" by simp_all
    obtain y d2 where list2: "getPodList d1 req app2 = (y, d2)"
      by (cases "getPodList d1 req app2")
    show ?thesis
    proof (cases y)
      case (Inl e)
      from getPodList_run [OF list2] Inl
      have tr: "trace d2 = trace d1 @ [(ListCall (ReqNamespace req) [(''app'', Name app2)], Some e)]"
        by auto
      from again get2' list2 Inl have "c'' = d2"
        by (simp add: Reconcile_def)
      with tr g(3) show ?thesis by (simp add: events_since_def)
    next
      case (Inr items2)
      with list2 have list2': "getPodList d1 req app2 = (Inr items2, d2)" by simp
      from getPodList_run [OF list2'] have l: "pods d2 = pods d1"
        "items2 = filter (matches (ReqNamespace req) [(''app'', Name app2)]) (pods d1)"
        "trace d2 = trace d1 @ [(ListCall (ReqNamespace req) [(''app'', Name app2)], None)]"
        by auto
      from l(2) g(1) same conv have "int (length items2) = Size (Spec app2)" by simp
      then have sc: "scalePods d2 req app2 items2 = (Inr (), d2)" by (rule scalePods_equal)
      with again Reconcile_read [OF get2' list2'] have us: "updateStatus d2 app2 items2 = (r2, c'')"
        by simp
      from updateStatus_run [OF us] obtain out where
        "trace c'' = trace d2 @ [(StatusUpdateCall (projected app2 items2), out)]"
        by auto
      with l(3) g(3) show ?thesis by (simp add: events_since_def)
    qed
  qed
qed

theorem second_pass_is_noop_witness:
  "wf_store (demo_cluster 3 [] []) \<and>
   getAppInstance (demo_cluster 3 [] []) demo_req = (Inr (demo_app 3), demo_after_get 3 [] []) \<and>
   Reconcile (demo_cluster 3 [] []) demo_req = (Inr (), snd (Reconcile (demo_cluster 3 [] []) demo_req)) \<and>
   Reconcile (snd (Reconcile (demo_cluster 3 [] []) demo_req)) demo_req
     = (Inr (), snd (Reconcile (snd (Reconcile (demo_cluster 3 [] []) demo_req)) demo_req)) \<and>
   create_calls (events_since (snd (Reconcile (demo_cluster 3 [] []) demo_req))
       (snd (Reconcile (snd (Reconcile (demo_cluster 3 [] []) demo_req)) demo_req))) = [] \<and>
   delete_calls (events_since (snd (Reconcile (demo_cluster 3 [] []) demo_req))
       (snd (Reconcile (snd (Reconcile (demo_cluster 3 [] []) demo_req)) demo_req))) = [] \<and>
   wf_store (demo_cluster 1 demo_pods []) \<and>
   getAppInstance (demo_cluster 1 demo_pods []) demo_req = (Inr (demo_app 1), demo_after_get 1 demo_pods []) \<and>
   Reconcile (demo_cluster 1 demo_pods []) demo_req = (Inr (), snd (Reconcile (demo_cluster 1 demo_pods []) demo_req)) \<and>
   Reconcile (snd (Reconcile (demo_cluster 1 demo_pods []) demo_req)) demo_req
     = (Inr (), snd (Reconcile (snd (Reconcile (demo_cluster 1 demo_pods []) demo_req)) demo_req)) \<and>
   create_calls (events_since (snd (Reconcile (demo_cluster 1 demo_pods []) demo_req))
       (snd (Reconcile (snd (Reconcile (demo_cluster 1 demo_pods []) demo_req)) demo_req))) = [] \<and>
   delete_calls (events_since (snd (Reconcile (demo_cluster 1 demo_pods []) demo_req))
       (snd (Reconcile (snd (Reconcile (demo_cluster 1 demo_pods []) demo_req)) demo_req))) = []"
proof -
  have wf1: "wf_store (demo_cluster 3 [] [])"
    by (simp add: wf_store_def demo_cluster_def)
  have get1: "getAppInstance (demo_cluster 3 [] []) demo_req = (Inr (demo_app 3), demo_after_get 3 [] [])"
    by (simp add: run_defs)
  have pass1: "Reconcile (demo_cluster 3 [] []) demo_req = (Inr (), snd (Reconcile (demo_cluster 3 [] []) demo_req))"
    by (simp add: run_defs)
  have again1: "Reconcile (snd (Reconcile (demo_cluster 3 [] []) demo_req)) demo_req
     = (Inr (), snd (Reconcile (snd (Reconcile (demo_cluster 3 [] []) demo_req)) demo_req))"
    by (simp add: run_defs)
  have wf2: "wf_store (demo_cluster 1 demo_pods [])"
    by (simp add: wf_store_def demo_cluster_def demo_pods_def demo_pod_def key_of_def)
  have get2: "getAppInstance (demo_cluster 1 demo_pods []) demo_req = (Inr (demo_app 1), demo_after_get 1 demo_pods [])"
    by (simp add: run_defs)
  have pass2: "Reconcile (demo_cluster 1 demo_pods []) demo_req = (Inr (), snd (Reconcile (demo_cluster 1 demo_pods []) demo_req))"
    by (simp add: run_defs)
  have again2: "Reconcile (snd (Reconcile (demo_cluster 1 demo_pods []) demo_req)) demo_req
     = (Inr (), snd (Reconcile (snd (Reconcile (demo_cluster 1 demo_pods []) demo_req)) demo_req))"
    by (simp add: run_defs)
  from second_pass_is_noop [OF wf1 get1 pass1 again1] second_pass_is_noop [OF wf2 get2 pass2 again2]
    wf1 get1 pass1 again1 wf2 get2 pass2 again2
  show ?thesis
    by (intro conjI) simp_all
qed

text \<open>
  C8. When fetching the instance fails, the pass makes no further call to the store and
  changes nothing: on not-found it ends without an error, on any other failure it returns
  that failure. When the instance is found and listing its pods fails, the pass returns
  that failure, whatever it is, after these two calls and changes nothing.
\<close>

theorem retrieval_failure_ends_pass:
  "(getAppInstance c req = (Inl e, c1) \<longrightarrow>
      Reconcile c req = ((if e = NotFound then Inr () else Inl (Err e)), c1) \<and>
      events_since c c1 = [(GetCall (ReqNamespace req, ReqName req), Some e)] \<and>
      pods c1 = pods c \<and> instances c1 = instances c) \<and>
   (getAppInstance c req = (Inr app, c1) \<and> getPodList c1 req app = (Inl e, c2) \<longrightarrow>
      Reconcile c req = (Inl (Err e), c2) \<and>
      events_since c c2 =
        [(GetCall (ReqNamespace req, ReqName req), None),
         (ListCall (ReqNamespace req) [(''app'', Name app)], Some e)] \<and>
      pods c2 = pods c \<and> instances c2 = instances c)"
proof (rule conjI; rule impI)
  assume get: "getAppInstance c req = (Inl e, c1)"
  from getAppInstance_run [OF get]
  have f: "trace c1 = trace c @ [(GetCall (ReqNamespace req, ReqName req), Some e)]"
    "pods c1 = pods c" "instances c1 = instances c"
    by auto
  from get f show "Reconcile c req = ((if e = NotFound then Inr () else Inl (Err e)), c1) \<and>
      events_since c c1 = [(GetCall (ReqNamespace req, ReqName req), Some e)] \<and>
      pods c1 = pods c \<and> instances c1 = instances c"
    by (simp add: Reconcile_def IsNotFound_def events_sinceI)
next
  assume both: "getAppInstance c req = (Inr app, c1) \<and> getPodList c1 req app = (Inl e, c2)"
  then have get: "getAppInstance c req = (Inr app, c1)"
    and list: "getPodList c1 req app = (Inl e, c2)"
    by simp_all
  from getAppInstance_run [OF get]
  have g: "trace c1 = trace c @ [(GetCall (ReqNamespace req, ReqName req), None)]"
    "pods c1 = pods c" "instances c1 = instances c"
    by auto
  from getPodList_run [OF list]
  have l: "trace c2 = trace c1 @ [(ListCall (ReqNamespace req) [(''app'', Name app)], Some e)]"
    "pods c2 = pods c1" "instances c2 = instances c1"
    by auto
  from get list g l show "Reconcile c req = (Inl (Err e), c2) \<and>
      events_since c c2 =
        [(GetCall (ReqNamespace req, ReqName req), None),
         (ListCall (ReqNamespace req) [(''app'', Name app)], Some e)] \<and>
      pods c2 = pods c \<and> instances c2 = instances c"
    by (simp add: Reconcile_def events_since_def)
qed

theorem retrieval_failure_ends_pass_witness:
  "getAppInstance (demo_cluster 3 [] []) (demo_req\<lparr>ReqName := ''gone''\<rparr>)
     = (Inl NotFound, snd (getAppInstance (demo_cluster 3 [] []) (demo_req\<lparr>ReqName := ''gone''\<rparr>))) \<and>
   Reconcile (demo_cluster 3 [] []) (demo_req\<lparr>ReqName := ''gone''\<rparr>)
     = (Inr (), snd (getAppInstance (demo_cluster 3 [] []) (demo_req\<lparr>ReqName := ''gone''\<rparr>))) \<and>
   getAppInstance (demo_cluster 3 [] [Some Unavailable]) demo_req
     = (Inl Unavailable, demo_after_get 3 [] [Some Unavailable]) \<and>
   Reconcile (demo_cluster 3 [] [Some Unavailable]) demo_req
     = (Inl (Err Unavailable), demo_after_get 3 [] [Some Unavailable]) \<and>
   getAppInstance (demo_cluster 3 demo_pods [None, Some Unavailable]) demo_req
     = (Inr (demo_app 3), demo_after_get 3 demo_pods [None, Some Unavailable]) \<and>
   getPodList (demo_after_get 3 demo_pods [None, Some Unavailable]) demo_req (demo_app 3)
     = (Inl Unavailable, demo_after_list 3 demo_pods [None, Some Unavailable]) \<and>
   Reconcile (demo_cluster 3 demo_pods [None, Some Unavailable]) demo_req
     = (Inl (Err Unavailable), demo_after_list 3 demo_pods [None, Some Unavailable]) \<and>
   events_since (demo_cluster 3 demo_pods [None, Some Unavailable])
       (demo_after_list 3 demo_pods [None, Some Unavailable])
     = [(GetCall (''default'', ''app''), None),
        (ListCall ''default'' [(''app'', ''app'')], Some Unavailable)] \<and>
   getPodList (demo_after_get 3 demo_pods [None, Some NotFound]) demo_req (demo_app 3)
     = (Inl NotFound, demo_after_list 3 demo_pods [None, Some NotFound]) \<and>
   Reconcile (demo_cluster 3 demo_pods [None, Some NotFound]) demo_req
     = (Inl (Err NotFound), demo_after_list 3 demo_pods [None, Some NotFound])"
proof -
  have a: "getAppInstance (demo_cluster 3 [] []) (demo_req\<lparr>ReqName := ''gone''\<rparr>)
     = (Inl NotFound, snd (getAppInstance (demo_cluster 3 [] []) (demo_req\<lparr>ReqName := ''gone''\<rparr>)))"
    by (simp add: run_defs)
  have b: "getAppInstance (demo_cluster 3 [] [Some Unavailable]) demo_req
     = (Inl Unavailable, demo_after_get 3 [] [Some Unavailable])"
    by (simp add: run_defs)
  have g: "getAppInstance (demo_cluster 3 demo_pods [None, Some Unavailable]) demo_req
     = (Inr (demo_app 3), demo_after_get 3 demo_pods [None, Some Unavailable])"
    by (simp add: run_defs)
  have l: "getPodList (demo_after_get 3 demo_pods [None, Some Unavailable]) demo_req (demo_app 3)
     = (Inl Unavailable, demo_after_list 3 demo_pods [None, Some Unavailable])"
    by (simp add: run_defs)
  have g': "getAppInstance (demo_cluster 3 demo_pods [None, Some NotFound]) demo_req
     = (Inr (demo_app 3), demo_after_get 3 demo_pods [None, Some NotFound])"
    by (simp add: run_defs)
  have l': "getPodList (demo_after_get 3 demo_pods [None, Some NotFound]) demo_req (demo_app 3)
     = (Inl NotFound, demo_after_list 3 demo_pods [None, Some NotFound])"
    by (simp add: run_defs)
  have nm: "ReqNamespace demo_req = ''default''" "ReqName demo_req = ''app''"
    "Name (demo_app 3) = ''app''"
    by (simp_all add: demo_req_def demo_app_def)
  from retrieval_failure_ends_pass [of "demo_cluster 3 [] []" "demo_req\<lparr>ReqName := ''gone''\<rparr>" NotFound
      "snd (getAppInstance (demo_cluster 3 [] []) (demo_req\<lparr>ReqName := ''gone''\<rparr>))"] a
  have r1: "Reconcile (demo_cluster 3 [] []) (demo_req\<lparr>ReqName := ''gone''\<rparr>)
     = (Inr (), snd (getAppInstance (demo_cluster 3 [] []) (demo_req\<lparr>ReqName := ''gone''\<rparr>)))"
    by simp
  from retrieval_failure_ends_pass [of "demo_cluster 3 [] [Some Unavailable]" demo_req Unavailable
      "demo_after_get 3 [] [Some Unavailable]"] b
  have r2: "Reconcile (demo_cluster 3 [] [Some Unavailable]) demo_req
     = (Inl (Err Unavailable), demo_after_get 3 [] [Some Unavailable])"
    by simp
  from retrieval_failure_ends_pass [of "demo_cluster 3 demo_pods [None, Some Unavailable]" demo_req
      Unavailable "demo_after_get 3 demo_pods [None, Some Unavailable]" "demo_app 3"
      "demo_after_list 3 demo_pods [None, Some Unavailable]"] g l
  have r3: "Reconcile (demo_cluster 3 demo_pods [None, Some Unavailable]) demo_req
     = (Inl (Err Unavailable), demo_after_list 3 demo_pods [None, Some Unavailable])"
    "events_since (demo_cluster 3 demo_pods [None, Some Unavailable])
       (demo_after_list 3 demo_pods [None, Some Unavailable])
     = [(GetCall (''default'', ''app''), None),
        (ListCall ''default'' [(''app'', ''app'')], Some Unavailable)]"
    by (simp_all add: nm)
  from retrieval_failure_ends_pass [of "demo_cluster 3 demo_pods [None, Some NotFound]" demo_req
      NotFound "demo_after_get 3 demo_pods [None, Some NotFound]" "demo_app 3"
      "demo_after_list 3 demo_pods [None, Some NotFound]"] g' l'
  have r4: "Reconcile (demo_cluster 3 demo_pods [None, Some NotFound]) demo_req
     = (Inl (Err NotFound), demo_after_list 3 demo_pods [None, Some NotFound])"
    by simp
  from a r1 b r2 g l r3 l' r4 show ?thesis
    by (intro conjI)
qed

text \<open>
  C9. With a desired size of at least 0 and the current size the length of the observed
  pod list, the shrink loop never indexes the list out of range: it does not panic, and the
  pods it asks the store to delete are the elements at indices \<open>length items - 1\<close> down to
  some \<open>k\<close> that is at least the desired size.
\<close>

theorem shrink_indices_in_bounds:
  assumes "0 \<le> desiredSize"
    and "deletePods c items (int (length items)) desiredSize = (r, c')"
  shows "r \<noteq> Inl PanicIndexOutOfRange \<and>
    (\<exists>k. nat desiredSize \<le> k \<and>
       delete_calls (events_since c c') = map (\<lambda>i. items ! i) (rev [k..<length items]))"
proof -
  from deletePods_attempts [OF assms(2)] assms(1)
  obtain k where k: "k \<le> length items" "delete_calls (events_since c c') = rev (drop k items)"
    "(r = Inr () \<and> int k = min (int (length items)) desiredSize) \<or>
     (\<exists>e. r = Inl (Err e) \<and> desiredSize \<le> int k)"
    by auto
  from k(3) have r: "r \<noteq> Inl PanicIndexOutOfRange" by auto
  from k(2) have calls: "delete_calls (events_since c c') = map (\<lambda>i. items ! i) (rev [k..<length items])"
    by (simp add: drop_as_nth rev_map)
  show ?thesis
  proof (cases "desiredSize \<le> int k")
    case True
    with r calls show ?thesis
      by (intro conjI exI [of _ k]) simp_all
  next
    case False
    with k(3) have "k = length items" by (auto simp: min_def split: if_splits)
    with calls have "delete_calls (events_since c c')
        = map (\<lambda>i. items ! i) (rev [max k (nat desiredSize)..<length items])"
      by simp
    with r show ?thesis
      by (intro conjI exI [of _ "max k (nat desiredSize)"]) simp_all
  qed
qed

theorem shrink_indices_in_bounds_witness:
  "(0::int) \<le> 1 \<and>
   deletePods (demo_cluster 1 demo_pods []) demo_pods (int (length demo_pods)) 1
     = (Inr (), snd (deletePods (demo_cluster 1 demo_pods []) demo_pods (int (length demo_pods)) 1)) \<and>
   Inr () \<noteq> (Inl PanicIndexOutOfRange :: failure + unit) \<and>
   (\<exists>k. nat 1 \<le> k \<and>
      delete_calls (events_since (demo_cluster 1 demo_pods [])
          (snd (deletePods (demo_cluster 1 demo_pods []) demo_pods (int (length demo_pods)) 1)))
        = map (\<lambda>i. demo_pods ! i) (rev [k..<length demo_pods]))"
proof -
  have h: "(0::int) \<le> 1" by simp
  have run: "deletePods (demo_cluster 1 demo_pods []) demo_pods (int (length demo_pods)) 1
     = (Inr (), snd (deletePods (demo_cluster 1 demo_pods []) demo_pods (int (length demo_pods)) 1))"
    by (simp add: run_defs)
  from shrink_indices_in_bounds [OF h run] h run show ?thesis by simp
qed

text \<open>
  The precondition is not enforced by the type of the size field, which is a signed
  integer: with a negative desired size the shrink loop cannot end normally, and when the
  store acknowledges every deletion it runs into index \<open>-1\<close>.
\<close>

lemma shrink_negative_never_succeeds:
  "desiredSize < 0 \<Longrightarrow> fst (deletePods c items (int (length items)) desiredSize) \<noteq> Inr ()"
  using deletePods_attempts [of c items desiredSize "fst (deletePods c items (int (length items)) desiredSize)"
      "snd (deletePods c items (int (length items)) desiredSize)"]
  by auto

lemma shrink_negative_panics:
  "fst (Reconcile (demo_cluster (- 1) demo_pods []) demo_req) = Inl PanicIndexOutOfRange \<and>
   pods (snd (Reconcile (demo_cluster (- 1) demo_pods []) demo_req)) = []"
  by (simp add: run_defs)

text \<open>
  C10. When the observed list is longer than the desired size, the scaling step creates
  nothing, and the pods it asks the store to delete are taken from the end of the observed
  list as given, last element first, down to some position not below the desired size; when
  the step ends without error, the pods deleted are exactly the elements after the first
  \<open>Size\<close> ones, in reverse list order.
\<close>

theorem shrink_deletes_tail_descending:
  assumes run: "scalePods c req app items = (r, c')"
    and more: "Size (Spec app) < int (length items)"
  shows "create_calls (events_since c c') = [] \<and>
    (\<exists>k. nat (Size (Spec app)) \<le> k \<and> k \<le> length items \<and>
       delete_calls (events_since c c') = rev (drop k items)) \<and>
    (r = Inr () \<longrightarrow>
       deleted_pods (events_since c c') = rev (drop (nat (Size (Spec app))) items) \<and>
       int (length (deleted_pods (events_since c c'))) = int (length items) - Size (Spec app))"
proof -
  from run more
  have dp: "deletePods c items (int (length items)) (Size (Spec app)) = (r, c')"
    by (simp add: scalePods_def)
  from deletePods_attempts [OF dp] obtain k where k: "k \<le> length items"
    "delete_calls (events_since c c') = rev (drop k items)"
    "create_calls (events_since c c') = []"
    "(r = Inr () \<and> 0 \<le> Size (Spec app) \<and> int k = min (int (length items)) (Size (Spec app))
         \<and> deleted_pods (events_since c c') = rev (drop k items)) \<or>
      (\<exists>e. r = Inl (Err e) \<and> Size (Spec app) \<le> int k) \<or>
      (r = Inl PanicIndexOutOfRange \<and> Size (Spec app) < 0 \<and> k = 0)"
    by blast
  from k(4) more have lo: "nat (Size (Spec app)) \<le> k"
    by (auto simp: min_def)
  have "r = Inr () \<longrightarrow>
       deleted_pods (events_since c c') = rev (drop (nat (Size (Spec app))) items) \<and>
       int (length (deleted_pods (events_since c c'))) = int (length items) - Size (Spec app)"
  proof
    assume "r = Inr ()"
    with k(4) more have "k = nat (Size (Spec app))" "0 \<le> Size (Spec app)"
      "deleted_pods (events_since c c') = rev (drop k items)"
      by (auto simp: min_def)
    with more show "deleted_pods (events_since c c') = rev (drop (nat (Size (Spec app))) items) \<and>
       int (length (deleted_pods (events_since c c'))) = int (length items) - Size (Spec app)"
      by simp
  qed
  with k(1,2,3) lo show ?thesis by blast
qed

theorem shrink_deletes_tail_descending_witness:
  "scalePods (demo_cluster 1 demo_pods []) demo_req (demo_app 1) demo_pods
     = (Inr (), snd (scalePods (demo_cluster 1 demo_pods []) demo_req (demo_app 1) demo_pods)) \<and>
   Size (Spec (demo_app 1)) < int (length demo_pods) \<and>
   deleted_pods (events_since (demo_cluster 1 demo_pods [])
       (snd (scalePods (demo_cluster 1 demo_pods []) demo_req (demo_app 1) demo_pods)))
     = [demo_pod ''app-pod-2'', demo_pod ''app-pod-1'']"
proof -
  have run: "scalePods (demo_cluster 1 demo_pods []) demo_req (demo_app 1) demo_pods
     = (Inr (), snd (scalePods (demo_cluster 1 demo_pods []) demo_req (demo_app 1) demo_pods))"
    by (simp add: run_defs)
  have more: "Size (Spec (demo_app 1)) < int (length demo_pods)"
    by (simp add: demo_app_def demo_pods_def)
  from shrink_deletes_tail_descending [OF run more] run more show ?thesis
    by (simp add: demo_app_def demo_pods_def)
qed

end
